theory Spec2Isabelle
  imports Main "HOL-Library.Sublist" "HOL-Library.AList"
begin

section \<open>The github_create_pr management command\<close>

text \<open>
  A shallow embedding of \<^verbatim>\<open>backend/apps/github/management/commands/github_create_pr.py\<close>.
  The command is a sequence of blocking calls into the GitHub client library, wrapped in
  string parsing and in the translation of exceptions into an exit status. The model keeps
  that shape: every method of \<^verbatim>\<open>Command\<close> is a function that takes the state of the run
  (the remote calls made so far, the two output streams, the local paths validated so far)
  and returns the updated state together with either the raised exception or the value.
  The \<^verbatim>\<open>logger\<close> channel has no influence on control flow and is left out.
\<close>

subsection \<open>Exceptions, output and the state of a run\<close>

text \<open>
  What a call into the client library or the token issuer can raise. PyGithub's
  \<^verbatim>\<open>BadCredentialsException\<close> is a subclass of \<^verbatim>\<open>GithubException\<close>, so a clause
  \<^verbatim>\<open>except GithubException\<close> catches both; anything else is an \<^verbatim>\<open>Exception\<close> that is no
  \<^verbatim>\<open>GithubException\<close>. The string is \<^verbatim>\<open>str(e)\<close>.
\<close>

datatype fault =
    GithubException string
  | BadCredentialsException string
  | OtherException string

fun is_github :: "fault \<Rightarrow> bool" where
  "is_github (GithubException m) = True"
| "is_github (BadCredentialsException m) = True"
| "is_github (OtherException m) = False"

fun str :: "fault \<Rightarrow> string" where
  "str (GithubException m) = m"
| "str (BadCredentialsException m) = m"
| "str (OtherException m) = m"

text \<open>
  What propagates inside the command: a fault of a library call, or the \<^verbatim>\<open>SystemExit\<close> of
  \<^verbatim>\<open>sys.exit(n)\<close>, which is a \<^verbatim>\<open>BaseException\<close> and passes every \<^verbatim>\<open>except Exception\<close>.
\<close>

datatype exn = Raised fault | SystemExit nat

text \<open>A line written to a stream, with the style function applied to it.\<close>

datatype line = Plain string | ERROR string | WARNING string | SUCCESS string

text \<open>
  The calls into the token issuer and the client library, with the arguments the command
  passes: \<^verbatim>\<open>get_contents(path, ref)\<close>, \<^verbatim>\<open>update_file(path, message, content, sha, branch)\<close>,
  \<^verbatim>\<open>create_file(path, message, content, branch)\<close>, \<^verbatim>\<open>create_pull(title, body, base, head, draft)\<close>.
\<close>

datatype (discs_sels) call =
    GetClient
  | GetRepo string
  | GetBranch string
  | CreateGitRef string string
  | GetContents string string
  | UpdateFile string string string string string
  | CreateFile string string string string
  | CreatePull string string string string bool
  | AddToLabels "string list"
  | AddToAssignees "string list"
  | AddToReviewers "string list"
  | Close

record run =
  calls :: "call list"
  stdout :: "line list"
  stderr :: "line list"
  checked :: "string list"

definition start :: run where
  "start = \<lparr>calls = [], stdout = [], stderr = [], checked = []\<rparr>"

definition write_out :: "line \<Rightarrow> run \<Rightarrow> run" where
  "write_out l st = st\<lparr>stdout := stdout st @ [l]\<rparr>"

definition write_err :: "line \<Rightarrow> run \<Rightarrow> run" where
  "write_err l st = st\<lparr>stderr := stderr st @ [l]\<rparr>"

text \<open>
  The remote side is an oracle: given the calls made so far and the next call, it either
  raises a fault or returns. Of a returned object the command reads one attribute only
  (\<^verbatim>\<open>commit.sha\<close> of a branch, \<^verbatim>\<open>sha\<close> of a content file, \<^verbatim>\<open>html_url\<close> of a pull request);
  the returned string stands for it and is ignored for the other calls. Every sequence of
  answers a real run can see is the run against some oracle.
\<close>

type_synonym remote = "call list \<Rightarrow> call \<Rightarrow> fault + string"

definition request :: "remote \<Rightarrow> call \<Rightarrow> run \<Rightarrow> (fault + string) \<times> run" where
  "request gh c st = (gh (calls st) c, st\<lparr>calls := calls st @ [c]\<rparr>)"

text \<open>
  The local file system as the run sees it, by the path string given on the command line:
  what \<^verbatim>\<open>Path.exists\<close>, \<^verbatim>\<open>Path.is_file\<close> and \<^verbatim>\<open>Path.stat\<close> report, the string of the path
  resolved against the working directory, and what \<^verbatim>\<open>Path.read_text\<close> does.
  \<^verbatim>\<open>Unusable m\<close> is an \<^verbatim>\<open>OSError\<close> or \<^verbatim>\<open>ValueError\<close> with text \<open>m\<close> raised while the path is
  examined; \<^verbatim>\<open>Directory\<close> stands for every entry that exists and is no regular file.
\<close>

datatype path_stat = Absent | Directory | Regular nat | Unusable string

text \<open>
  \<^verbatim>\<open>Decoded s\<close>: the file is valid UTF-8. \<^verbatim>\<open>Replaced s\<close>: the first read raises
  \<^verbatim>\<open>UnicodeDecodeError\<close> and the second, with \<^verbatim>\<open>errors="replace"\<close>, returns \<open>s\<close>.
  \<^verbatim>\<open>ReplaceFailed m\<close>: the second read raises an exception with text \<open>m\<close>.
  \<^verbatim>\<open>ReadFailed m\<close>: the first read raises something other than \<^verbatim>\<open>UnicodeDecodeError\<close>.
\<close>

datatype read_result = Decoded string | Replaced string | ReplaceFailed string | ReadFailed string

record local_fs =
  stat :: "string \<Rightarrow> path_stat"
  resolve :: "string \<Rightarrow> string"
  read_text :: "string \<Rightarrow> read_result"

subsection \<open>Python's string primitives\<close>

text \<open>
  Strings are lists of 8-bit characters read as code points below 256. \<^verbatim>\<open>str.strip()\<close>
  removes the characters for which \<^verbatim>\<open>str.isspace\<close> holds, on both ends.
\<close>

definition is_space :: "char \<Rightarrow> bool" where
  "is_space c = (of_char c \<in> {9, 10, 11, 12, 13, 28, 29, 30, 31, 32, 133, 160 :: nat})"

definition strip :: "string \<Rightarrow> string" where
  "strip s = rev (dropWhile is_space (rev (dropWhile is_space s)))"

text \<open>\<^verbatim>\<open>s.split(sep)\<close> for a separator of one character: never the empty list.\<close>

primrec split_on :: "char \<Rightarrow> string \<Rightarrow> string list" where
  "split_on sep [] = [[]]"
| "split_on sep (c # cs) =
     (if c = sep then [] # split_on sep cs
      else (c # hd (split_on sep cs)) # tl (split_on sep cs))"

text \<open>\<^verbatim>\<open>s.split(sep, 1)\<close> where \<open>sep\<close> occurs in \<open>s\<close>: the parts before and after its first occurrence.\<close>

definition split_once :: "char \<Rightarrow> string \<Rightarrow> string \<times> string" where
  "split_once sep s = (takeWhile (\<lambda>c. c \<noteq> sep) s, drop 1 (dropWhile (\<lambda>c. c \<noteq> sep) s))"

text \<open>The character \<^verbatim>\<open>'\<close> of the messages.\<close>

abbreviation apostrophe :: string where
  "apostrophe \<equiv> [CHR 0x27]"

text \<open>\<^verbatim>\<open>sep.join(xs)\<close>.\<close>

fun join :: "string \<Rightarrow> string list \<Rightarrow> string" where
  "join sep [] = []"
| "join sep [x] = x"
| "join sep (x # y # ys) = x @ sep @ join sep (y # ys)"

text \<open>The decimal digits of a number, as an f-string prints it.\<close>

function show_nat :: "nat \<Rightarrow> string" where
  "show_nat n =
     (if n < 10 then [''0123456789'' ! n]
      else show_nat (n div 10) @ [''0123456789'' ! (n mod 10)])"
  by pat_completeness auto
termination
  by (relation "measure id") auto

declare show_nat.simps [simp del]

definition show_bool :: "bool \<Rightarrow> string" where
  "show_bool b = (if b then ''True'' else ''False'')"

subsection \<open>Input normalisation\<close>

text \<open>
  The loop of \<^verbatim>\<open>_parse_files\<close> over the comma-separated pieces. The dictionary \<^verbatim>\<open>files\<close> is
  an association list in insertion order; \<^verbatim>\<open>files[k] = v\<close> replaces the value of a key that
  is present, in place, and appends a new key, which is \<^const>\<open>AList.update\<close>.
\<close>

fun parse_specs ::
  "string list \<Rightarrow> (string \<times> string) list \<Rightarrow> run \<Rightarrow> (exn + (string \<times> string) list) \<times> run" where
  "parse_specs [] files st = (Inr files, st)"
| "parse_specs (file_spec # rest) files st =
     (if CHR '':'' \<notin> set file_spec then
        (Inl (SystemExit 1),
         write_err (ERROR (''Invalid file specification: '' @ file_spec @
           ''. Expected format: '' @ apostrophe @ ''local_path:remote_path'' @ apostrophe)) st)
      else
        let local_path = strip (fst (split_once CHR '':'' file_spec));
            remote_path = strip (snd (split_once CHR '':'' file_spec))
        in
          if local_path = [] then
            (Inl (SystemExit 1),
             write_err (ERROR (''Empty local path in specification: '' @ file_spec)) st)
          else if remote_path = [] then
            (Inl (SystemExit 1),
             write_err (ERROR (''Empty remote path in specification: '' @ file_spec)) st)
          else parse_specs rest (AList.update local_path remote_path files) st)"

definition parse_files ::
  "string option \<Rightarrow> run \<Rightarrow> (exn + (string \<times> string) list) \<times> run" where
  "parse_files files_str st =
     (case files_str of
        None \<Rightarrow> (Inr [], st)
      | Some s \<Rightarrow> if s = [] then (Inr [], st) else parse_specs (split_on CHR '','' s) [] st)"

definition parse_list :: "string option \<Rightarrow> string list" where
  "parse_list list_str =
     (case list_str of
        None \<Rightarrow> []
      | Some s \<Rightarrow>
          if s = [] then []
          else map strip (filter (\<lambda>item. strip item \<noteq> []) (split_on CHR '','' s)))"

definition max_size :: nat where
  "max_size = 100 * 1024 * 1024"

text \<open>
  \<^verbatim>\<open>_validate_file_path\<close>: every failure is a message on the error stream and
  \<^verbatim>\<open>sys.exit(1)\<close>; the value is the resolved path.
\<close>

definition validate_file_path :: "local_fs \<Rightarrow> string \<Rightarrow> run \<Rightarrow> (exn + string) \<times> run" where
  "validate_file_path fs file_path st =
     (let st' = st\<lparr>checked := checked st @ [file_path]\<rparr> in
      case stat fs file_path of
        Unusable m \<Rightarrow>
          (Inl (SystemExit 1),
           write_err (ERROR (''Invalid file path '' @ apostrophe @ file_path @ apostrophe @ '': '' @ m)) st')
      | Absent \<Rightarrow>
          (Inl (SystemExit 1), write_err (ERROR (''File not found: '' @ file_path)) st')
      | Directory \<Rightarrow>
          (Inl (SystemExit 1), write_err (ERROR (''Path is not a file: '' @ file_path)) st')
      | Regular file_size \<Rightarrow>
          if file_size > max_size then
            (Inl (SystemExit 1),
             write_err (ERROR (''File too large: '' @ file_path @ '' ('' @ show_nat file_size @
               '' bytes). Maximum size is '' @ show_nat max_size @ '' bytes.'')) st')
          else (Inr (resolve fs file_path), st'))"

text \<open>\<^verbatim>\<open>_read_file_content\<close>, given the path string the validation was asked about.\<close>

definition read_file_content :: "local_fs \<Rightarrow> string \<Rightarrow> run \<Rightarrow> (exn + string) \<times> run" where
  "read_file_content fs file_path st =
     (case read_text fs file_path of
        Decoded s \<Rightarrow> (Inr s, st)
      | Replaced s \<Rightarrow> (Inr s, st)
      | ReplaceFailed m \<Rightarrow>
          (Inl (SystemExit 1),
           write_err (ERROR (''Failed to read file '' @ apostrophe @ resolve fs file_path @ apostrophe @ '': '' @ m)) st)
      | ReadFailed m \<Rightarrow> (Inl (Raised (OtherException m)), st))"

subsection \<open>Dry run\<close>

text \<open>
  The loop of \<^verbatim>\<open>_show_dry_run\<close> over \<^verbatim>\<open>files.items()\<close>. The clause \<^verbatim>\<open>except SystemExit\<close>
  catches every failure of the validation; the size printed is read from the validated
  path a second time.
\<close>

fun dry_run_files :: "local_fs \<Rightarrow> (string \<times> string) list \<Rightarrow> run \<Rightarrow> (exn + unit) \<times> run" where
  "dry_run_files fs [] st = (Inr (), st)"
| "dry_run_files fs ((local_path, remote_path) # rest) st =
     (case validate_file_path fs local_path st of
        (Inr file_path, st1) \<Rightarrow>
          (case stat fs local_path of
             Regular file_size \<Rightarrow>
               dry_run_files fs rest
                 (write_out (Plain (''  '' @ local_path @ '' -> '' @ remote_path @
                    '' ('' @ show_nat file_size @ '' bytes)'')) st1)
           | _ \<Rightarrow> (Inl (Raised (OtherException ''stat'')), st1))
      | (Inl (SystemExit n), st1) \<Rightarrow>
          dry_run_files fs rest
            (write_out (Plain (''  '' @ local_path @ '' -> '' @ remote_path @
               '' (FILE NOT FOUND)'')) st1)
      | (Inl (Raised f), st1) \<Rightarrow> (Inl (Raised f), st1))"

definition show_dry_run ::
  "local_fs \<Rightarrow> string \<Rightarrow> string \<Rightarrow> string \<Rightarrow> string \<Rightarrow> string \<Rightarrow> (string \<times> string) list \<Rightarrow>
   string list \<Rightarrow> string list \<Rightarrow> string list \<Rightarrow> bool \<Rightarrow> run \<Rightarrow> (exn + unit) \<times> run" where
  "show_dry_run fs repository title body base_branch head_branch files labels assignees
     reviewers draft st =
     (let st1 = write_out (WARNING ''DRY RUN - No changes will be made'') st;
          st2 = write_out (Plain (''Repository: '' @ repository)) st1;
          st3 = write_out (Plain (''Title: '' @ title)) st2;
          st4 = write_out (Plain (''Body: '' @ body)) st3;
          st5 = write_out (Plain (''Base branch: '' @ base_branch)) st4;
          st6 = write_out (Plain (''Head branch: '' @ head_branch)) st5;
          st7 = write_out (Plain (''Draft: '' @ show_bool draft)) st6
      in
        case (if files \<noteq> [] then dry_run_files fs files (write_out (Plain ''Files to upload:'') st7)
              else (Inr (), st7)) of
          (Inl e, st8) \<Rightarrow> (Inl e, st8)
        | (Inr u, st8) \<Rightarrow>
            (let st9 = (if labels \<noteq> [] then
                          write_out (Plain (''Labels: '' @ join '', '' labels)) st8 else st8);
                 st10 = (if assignees \<noteq> [] then
                           write_out (Plain (''Assignees: '' @ join '', '' assignees)) st9 else st9);
                 st11 = (if reviewers \<noteq> [] then
                           write_out (Plain (''Reviewers: '' @ join '', '' reviewers)) st10 else st10)
             in (Inr (), st11)))"

subsection \<open>Publishing files\<close>

text \<open>
  The innermost \<^verbatim>\<open>try\<close> of \<^verbatim>\<open>_upload_files\<close>: \<^verbatim>\<open>get_contents\<close> and \<^verbatim>\<open>update_file\<close> stand in
  the same \<^verbatim>\<open>try\<close> block, and its \<^verbatim>\<open>except GithubException\<close> creates the file.
\<close>

definition put_file ::
  "remote \<Rightarrow> string \<Rightarrow> string \<Rightarrow> string \<Rightarrow> run \<Rightarrow> (exn + unit) \<times> run" where
  "put_file gh head_branch remote_path content st =
     (let (r, st1) =
        (case request gh (GetContents remote_path head_branch) st of
           (Inl f, st') \<Rightarrow> (Inl f, st')
         | (Inr sha, st') \<Rightarrow>
             request gh (UpdateFile remote_path (''Update '' @ remote_path) content sha head_branch) st')
      in case r of
           Inr u \<Rightarrow> (Inr (), st1)
         | Inl f \<Rightarrow>
             if is_github f then
               (case request gh (CreateFile remote_path (''Create '' @ remote_path) content head_branch) st1 of
                  (Inl f', st2) \<Rightarrow> (Inl (Raised f'), st2)
                | (Inr u, st2) \<Rightarrow> (Inr (), st2))
             else (Inl (Raised f), st1))"

text \<open>One pass of the loop over \<^verbatim>\<open>files.items()\<close>, with the \<^verbatim>\<open>try\<close> around its body.\<close>

definition upload_one ::
  "remote \<Rightarrow> local_fs \<Rightarrow> string \<Rightarrow> string \<Rightarrow> string \<Rightarrow> run \<Rightarrow> (exn + unit) \<times> run" where
  "upload_one gh fs head_branch local_path remote_path st =
     (let (r, st1) =
        (case validate_file_path fs local_path st of
           (Inl e, st') \<Rightarrow> (Inl e, st')
         | (Inr file_path, st') \<Rightarrow>
             (case read_file_content fs local_path st' of
                (Inl e, st'') \<Rightarrow> (Inl e, st'')
              | (Inr content, st'') \<Rightarrow> put_file gh head_branch remote_path content st''))
      in case r of
           Inl (Raised f) \<Rightarrow>
             if is_github f then
               (r, write_err (ERROR (''Failed to upload '' @ local_path @ '' -> '' @ remote_path @
                      '': '' @ str f)) st1)
             else (r, st1)
         | _ \<Rightarrow> (r, st1))"

fun upload_loop ::
  "remote \<Rightarrow> local_fs \<Rightarrow> string \<Rightarrow> (string \<times> string) list \<Rightarrow> run \<Rightarrow> (exn + unit) \<times> run" where
  "upload_loop gh fs head_branch [] st = (Inr (), st)"
| "upload_loop gh fs head_branch ((local_path, remote_path) # rest) st =
     (case upload_one gh fs head_branch local_path remote_path st of
        (Inl e, st1) \<Rightarrow> (Inl e, st1)
      | (Inr u, st1) \<Rightarrow> upload_loop gh fs head_branch rest st1)"

text \<open>
  \<^verbatim>\<open>_upload_files\<close>: the branch whose tip is read is the literal \<^verbatim>\<open>"main"\<close>. The outer
  \<^verbatim>\<open>except GithubException\<close> reports and re-raises whatever GitHub fault leaves the body.
\<close>

definition upload_files ::
  "remote \<Rightarrow> local_fs \<Rightarrow> string \<Rightarrow> (string \<times> string) list \<Rightarrow> run \<Rightarrow> (exn + unit) \<times> run" where
  "upload_files gh fs head_branch files st =
     (let (r, st1) =
        (case request gh (GetBranch ''main'') st of
           (Inl f, st') \<Rightarrow> (Inl (Raised f), st')
         | (Inr base_sha, st') \<Rightarrow>
             (case request gh (CreateGitRef (''refs/heads/'' @ head_branch) base_sha) st' of
                (Inr u, st'') \<Rightarrow> upload_loop gh fs head_branch files st''
              | (Inl f, st'') \<Rightarrow>
                  if is_github f \<and> sublist ''Reference already exists'' (str f)
                  then upload_loop gh fs head_branch files st''
                  else (Inl (Raised f), st'')))
      in case r of
           Inl (Raised f) \<Rightarrow>
             if is_github f then (r, write_err (ERROR (''Failed to upload files: '' @ str f)) st1)
             else (r, st1)
         | _ \<Rightarrow> (r, st1))"

subsection \<open>Creating and enriching the pull request\<close>

text \<open>The pull request object is represented by its \<^verbatim>\<open>html_url\<close>.\<close>

definition create_pull_request ::
  "remote \<Rightarrow> string \<Rightarrow> string \<Rightarrow> string \<Rightarrow> string \<Rightarrow> bool \<Rightarrow> run \<Rightarrow> (exn + string) \<times> run" where
  "create_pull_request gh title body base_branch head_branch draft st =
     (case request gh (CreatePull title body base_branch head_branch draft) st of
        (Inr pr, st1) \<Rightarrow> (Inr pr, st1)
      | (Inl f, st1) \<Rightarrow>
          if is_github f then
            (Inl (Raised f), write_err (ERROR (''Failed to create Pull Request: '' @ str f)) st1)
          else (Inl (Raised f), st1))"

definition add_labels :: "remote \<Rightarrow> string list \<Rightarrow> run \<Rightarrow> (exn + unit) \<times> run" where
  "add_labels gh labels st =
     (case request gh (AddToLabels labels) st of
        (Inr u, st1) \<Rightarrow> (Inr (), st1)
      | (Inl f, st1) \<Rightarrow>
          if is_github f then
            (Inr (), write_err (WARNING (''Failed to add labels: '' @ str f)) st1)
          else (Inl (Raised f), st1))"

definition add_assignees :: "remote \<Rightarrow> string list \<Rightarrow> run \<Rightarrow> (exn + unit) \<times> run" where
  "add_assignees gh assignees st =
     (case request gh (AddToAssignees assignees) st of
        (Inr u, st1) \<Rightarrow> (Inr (), st1)
      | (Inl f, st1) \<Rightarrow>
          if is_github f then
            (Inr (), write_err (WARNING (''Failed to add assignees: '' @ str f)) st1)
          else (Inl (Raised f), st1))"

definition add_reviewers :: "remote \<Rightarrow> string list \<Rightarrow> run \<Rightarrow> (exn + unit) \<times> run" where
  "add_reviewers gh reviewers st =
     (case request gh (AddToReviewers reviewers) st of
        (Inr u, st1) \<Rightarrow> (Inr (), st1)
      | (Inl f, st1) \<Rightarrow>
          if is_github f then
            (Inr (), write_err (WARNING (''Failed to add reviewers: '' @ str f)) st1)
          else (Inl (Raised f), st1))"

subsection \<open>The command\<close>

text \<open>The parsed command line; \<^verbatim>\<open>--base-branch\<close> arrives with its default \<^verbatim>\<open>"main"\<close> filled in.\<close>

record options =
  opt_repository :: string
  opt_title :: string
  opt_body :: string
  opt_base_branch :: string
  opt_head_branch :: string
  opt_files :: "string option"
  opt_labels :: "string option"
  opt_assignees :: "string option"
  opt_reviewers :: "string option"
  opt_draft :: bool
  opt_dry_run :: bool

text \<open>
  Lines 171 to 185 of \<^verbatim>\<open>handle\<close>: what follows the creation of the pull request.
\<close>

definition enrich ::
  "remote \<Rightarrow> string \<Rightarrow> string list \<Rightarrow> string list \<Rightarrow> string list \<Rightarrow> run \<Rightarrow> (exn + unit) \<times> run" where
  "enrich gh pr labels assignees reviewers st =
     (case (if labels \<noteq> [] then add_labels gh labels st else (Inr (), st)) of
        (Inl e, st1) \<Rightarrow> (Inl e, st1)
      | (Inr u, st1) \<Rightarrow>
     (case (if assignees \<noteq> [] then add_assignees gh assignees st1 else (Inr (), st1)) of
        (Inl e, st2) \<Rightarrow> (Inl e, st2)
      | (Inr u, st2) \<Rightarrow>
     (case (if reviewers \<noteq> [] then add_reviewers gh reviewers st2 else (Inr (), st2)) of
        (Inl e, st3) \<Rightarrow> (Inl e, st3)
      | (Inr u, st3) \<Rightarrow>
          (Inr (), write_out (SUCCESS (''Successfully created Pull Request: '' @ pr)) st3))))"

text \<open>
  Lines 157 to 185 of \<^verbatim>\<open>handle\<close>: what a run that is no dry run does with the parsed
  mapping and lists.
\<close>

definition deliver ::
  "remote \<Rightarrow> local_fs \<Rightarrow> options \<Rightarrow> (string \<times> string) list \<Rightarrow> string list \<Rightarrow> string list \<Rightarrow>
   string list \<Rightarrow> run \<Rightarrow> (exn + unit) \<times> run" where
  "deliver gh fs options files_to_upload labels assignees reviewers st =
     (case (if files_to_upload \<noteq> []
            then upload_files gh fs (opt_head_branch options) files_to_upload st
            else (Inr (), st)) of
        (Inl e, st1) \<Rightarrow> (Inl e, st1)
      | (Inr u, st1) \<Rightarrow>
     (case create_pull_request gh (opt_title options) (opt_body options)
             (opt_base_branch options) (opt_head_branch options) (opt_draft options) st1 of
        (Inl e, st2) \<Rightarrow> (Inl e, st2)
      | (Inr pr, st2) \<Rightarrow> enrich gh pr labels assignees reviewers st2))"

text \<open>
  Lines 114 to 185 of \<^verbatim>\<open>handle\<close>: the \<^verbatim>\<open>try\<close> block from the point where \<^verbatim>\<open>gh\<close> is bound.
\<close>

definition handle_body :: "remote \<Rightarrow> local_fs \<Rightarrow> options \<Rightarrow> run \<Rightarrow> (exn + unit) \<times> run" where
  "handle_body gh fs options st =
     (case request gh (GetRepo (opt_repository options)) st of
        (Inl f, st1) \<Rightarrow>
          if is_github f then
            (Inl (SystemExit 1),
             write_err (ERROR (''Failed to access repository '' @ opt_repository options @
               '': '' @ str f)) st1)
          else (Inl (Raised f), st1)
      | (Inr repo, st1) \<Rightarrow>
     (case request gh (GetBranch (opt_base_branch options)) st1 of
        (Inl f, st2) \<Rightarrow>
          if is_github f then
            (Inl (SystemExit 1),
             write_err (ERROR (''Base branch '' @ apostrophe @ opt_base_branch options @
               apostrophe @ '' not found: '' @ str f)) st2)
          else (Inl (Raised f), st2)
      | (Inr base_branch, st2) \<Rightarrow>
     (case parse_files (opt_files options) st2 of
        (Inl e, st3) \<Rightarrow> (Inl e, st3)
      | (Inr files_to_upload, st3) \<Rightarrow>
          (let labels = parse_list (opt_labels options);
               assignees = parse_list (opt_assignees options);
               reviewers = parse_list (opt_reviewers options)
           in
             if opt_dry_run options then
               show_dry_run fs (opt_repository options) (opt_title options) (opt_body options)
                 (opt_base_branch options) (opt_head_branch options) files_to_upload labels
                 assignees reviewers (opt_draft options) st3
             else deliver gh fs options files_to_upload labels assignees reviewers st3))))"

text \<open>
  The \<^verbatim>\<open>except\<close> clauses of \<^verbatim>\<open>handle\<close>: \<^verbatim>\<open>BadCredentialsException\<close> first, then
  \<^verbatim>\<open>Exception\<close>. A \<^verbatim>\<open>SystemExit\<close> passes both.
\<close>

definition handle_except :: "(exn + unit) \<times> run \<Rightarrow> (exn + unit) \<times> run" where
  "handle_except outcome =
     (case outcome of
        (Inl (Raised (BadCredentialsException m)), st) \<Rightarrow>
          (Inl (SystemExit 1),
           write_err (ERROR
             ''GitHub authentication failed. Please check your GitHub App configuration.'') st)
      | (Inl (Raised f), st) \<Rightarrow>
          (Inl (SystemExit 1), write_err (ERROR (''Unexpected error: '' @ str f)) st)
      | (r, st) \<Rightarrow> (r, st))"

text \<open>
  The \<^verbatim>\<open>finally\<close> clause of \<^verbatim>\<open>handle\<close> on the path where \<^verbatim>\<open>gh\<close> is bound: it calls
  \<^verbatim>\<open>gh.close()\<close>. An exception raised there replaces whatever the \<^verbatim>\<open>try\<close> statement was
  about to do (return, or leave with \<^verbatim>\<open>SystemExit\<close>); otherwise that outcome stands.
\<close>

definition handle_finally :: "remote \<Rightarrow> (exn + unit) \<times> run \<Rightarrow> (exn + unit) \<times> run" where
  "handle_finally gh outcome =
     (case request gh Close (snd outcome) of
        (Inl f, st) \<Rightarrow> (Inl (Raised f), st)
      | (Inr u, st) \<Rightarrow> (fst outcome, st))"

text \<open>
  \<^verbatim>\<open>handle\<close>. The name \<^verbatim>\<open>gh\<close> is bound, and the client closed at the end, exactly when
  the token issuer returned.
\<close>

definition handle :: "remote \<Rightarrow> local_fs \<Rightarrow> options \<Rightarrow> run \<Rightarrow> (exn + unit) \<times> run" where
  "handle gh fs options st =
     (if CHR ''/'' \<notin> set (opt_repository options) then
        handle_except
          (Inl (SystemExit 1),
           write_err (ERROR (''Invalid repository format: '' @ opt_repository options @
             ''. Expected format: '' @ apostrophe @ ''owner/repo'' @ apostrophe)) st)
      else
        (case request gh GetClient st of
           (Inl f, st1) \<Rightarrow> handle_except (Inl (Raised f), st1)
         | (Inr client, st1) \<Rightarrow>
             handle_finally gh (handle_except (handle_body gh fs options st1))))"

text \<open>
  The exit status of the process: 0 when \<^verbatim>\<open>handle\<close> returns, the argument of
  \<^verbatim>\<open>sys.exit\<close>, and 1 for an exception that nothing catches.
\<close>

fun exit_status :: "exn + 'a \<Rightarrow> nat" where
  "exit_status (Inr u) = 0"
| "exit_status (Inl (SystemExit n)) = n"
| "exit_status (Inl (Raised f)) = 1"

text \<open>
  The calls that change the remote repository or a pull request, and among them the three
  additions that follow the creation of the pull request.
\<close>

fun mutating :: "call \<Rightarrow> bool" where
  "mutating (CreateGitRef ref sha) = True"
| "mutating (UpdateFile path message content sha branch) = True"
| "mutating (CreateFile path message content branch) = True"
| "mutating (CreatePull title body base head draft) = True"
| "mutating (AddToLabels labels) = True"
| "mutating (AddToAssignees assignees) = True"
| "mutating (AddToReviewers reviewers) = True"
| "mutating c = False"

fun enrichment :: "call \<Rightarrow> bool" where
  "enrichment (AddToLabels labels) = True"
| "enrichment (AddToAssignees assignees) = True"
| "enrichment (AddToReviewers reviewers) = True"
| "enrichment c = False"

section \<open>Properties\<close>

subsection \<open>Splitting and joining\<close>

lemma split_on_not_Nil: "split_on sep s \<noteq> []"
  by (induction s) auto

lemma split_on_no_sep: "sep \<notin> set p \<Longrightarrow> split_on sep p = [p]"
  by (induction p) auto

lemma split_on_append_sep:
  "sep \<notin> set p \<Longrightarrow> split_on sep (p @ sep # rest) = p # split_on sep rest"
  by (induction p) auto

lemma split_on_join:
  "ps \<noteq> [] \<Longrightarrow> \<forall>p\<in>set ps. sep \<notin> set p \<Longrightarrow> split_on sep (join [sep] ps) = ps"
  by (induction "[sep]" ps rule: join.induct) (auto simp: split_on_no_sep split_on_append_sep)

lemma split_once_first:
  "sep \<notin> set l \<Longrightarrow> split_once sep (l @ sep # r) = (l, r)"
  by (induction l) (auto simp: split_once_def)


subsection \<open>The file mapping\<close>

lemma parse_specs_ok:
  "\<forall>(l, r)\<in>set ps. CHR '':'' \<notin> set l \<and> strip l \<noteq> [] \<and> strip r \<noteq> [] \<Longrightarrow>
   parse_specs (map (\<lambda>(l, r). l @ CHR '':'' # r) ps) acc st =
     (Inr (fold (\<lambda>(l, r). AList.update (strip l) (strip r)) ps acc), st)"
  by (induction ps arbitrary: acc) (auto simp: split_once_first)

lemma update_fresh: "k \<notin> fst ` set al \<Longrightarrow> AList.update k v al = al @ [(k, v)]"
  by (induction al) auto

lemma fold_update_fresh:
  "distinct (map fst kvs) \<Longrightarrow> fst ` set kvs \<inter> fst ` set acc = {} \<Longrightarrow>
   fold (\<lambda>(k, v). AList.update k v) kvs acc = acc @ kvs"
proof (induction kvs arbitrary: acc)
  case Nil
  then show ?case by simp
next
  case (Cons kv kvs)
  obtain k v where kv: "kv = (k, v)" by (cases kv)
  from Cons.prems have fresh: "k \<notin> fst ` set acc" by (auto simp: kv)
  from Cons.prems have "fst ` set kvs \<inter> fst ` set (acc @ [(k, v)]) = {}"
    by (auto simp: kv)
  with Cons.IH [of "acc @ [(k, v)]"] Cons.prems show ?case
    by (simp add: kv update_fresh [OF fresh])
qed

lemma fold_update_distinct:
  "distinct (map fst acc) \<Longrightarrow> distinct (map fst (fold (\<lambda>(k, v). AList.update k v) kvs acc))"
  by (induction kvs arbitrary: acc) (auto simp: distinct_update)

lemma fold_update_map_of:
  "map_of (fold (\<lambda>(k, v). AList.update k v) kvs acc) = map_of acc ++ map_of (rev kvs)"
  by (induction kvs arbitrary: acc) (auto simp: update_conv' map_add_upd_left fun_eq_iff map_add_def split: option.splits)

lemma fold_update_keys:
  "fst ` set (fold (\<lambda>(k, v). AList.update k v) kvs acc) = fst ` set acc \<union> fst ` set kvs"
proof -
  have "dom (map_of (fold (\<lambda>(k, v). AList.update k v) kvs acc)) = dom (map_of acc) \<union> dom (map_of (rev kvs))"
    by (simp add: fold_update_map_of Un_commute)
  then show ?thesis by (simp add: dom_map_of_conv_image_fst)
qed

lemma fold_update_length:
  "length (fold (\<lambda>(k, v). AList.update k v) kvs []) = card (fst ` set kvs)"
proof -
  have "distinct (map fst (fold (\<lambda>(k, v). AList.update k v) kvs []))"
    by (rule fold_update_distinct) simp
  then have "length (map fst (fold (\<lambda>(k, v). AList.update k v) kvs [])) =
      card (set (map fst (fold (\<lambda>(k, v). AList.update k v) kvs [])))"
    by (simp only: distinct_card)
  then show ?thesis by (simp add: fold_update_keys)
qed

lemma map_of_rev_last:
  "k \<notin> fst ` set post \<Longrightarrow> map_of (rev (pre @ (k, v) # post)) k = Some v"
  by (simp add: map_add_Some_iff map_of_eq_None_iff)

lemma well_formed_not_empty:
  assumes "ps \<noteq> []"
  shows "join '','' (map (\<lambda>(l, r). l @ CHR '':'' # r) ps) \<noteq> []"
proof -
  obtain l r qs where "ps = (l, r) # qs" using assms by (cases ps) auto
  then show ?thesis by (cases qs) auto
qed

lemma parse_files_well_formed:
  assumes "ps \<noteq> []"
    and "\<forall>(l, r)\<in>set ps. CHR '':'' \<notin> set l \<and> CHR '','' \<notin> set l \<and> CHR '','' \<notin> set r \<and>
           strip l \<noteq> [] \<and> strip r \<noteq> []"
  shows "parse_files (Some (join '','' (map (\<lambda>(l, r). l @ CHR '':'' # r) ps))) st =
     (Inr (fold (\<lambda>(k, v). AList.update k v) (map (\<lambda>(l, r). (strip l, strip r)) ps) []), st)"
proof -
  let ?pieces = "map (\<lambda>(l, r). l @ CHR '':'' # r) ps"
  have "?pieces \<noteq> []" using assms(1) by simp
  moreover have "\<forall>p\<in>set ?pieces. CHR '','' \<notin> set p" using assms(2) by auto
  ultimately have sp: "split_on CHR '','' (join '','' ?pieces) = ?pieces"
    using split_on_join [of ?pieces "CHR '',''"] by simp
  have wf: "\<forall>(l, r)\<in>set ps. CHR '':'' \<notin> set l \<and> strip l \<noteq> [] \<and> strip r \<noteq> []"
    using assms(2) by auto
  have fm: "fold (\<lambda>(l, r). AList.update (strip l) (strip r)) ps [] =
      fold (\<lambda>(k, v). AList.update k v) (map (\<lambda>(l, r). (strip l, strip r)) ps) []"
    by (simp add: fold_map comp_def case_prod_unfold)
  show ?thesis
    using well_formed_not_empty [OF assms(1)]
    by (simp add: parse_files_def sp parse_specs_ok [OF wf] fm)
qed

text \<open>
  Claim C3, as amended. A well-formed string \<open>l1:r1,...,ln:rn\<close> is the join of its \<open>n\<close> pairs,
  where no \<open>l\<close> holds a colon, no side holds a comma and both sides are non-empty after
  trimming. When the trimmed local paths are pairwise distinct, \<^verbatim>\<open>_parse_files\<close> returns the
  mapping of the \<open>n\<close> trimmed pairs, in the order of the input: its size is \<open>n\<close> and every
  trimmed local path maps to its trimmed remote path. Absent and empty input give the
  empty mapping.
\<close>

theorem parse_files_distinct_pairs:
  assumes "ps \<noteq> []"
    and "\<forall>(l, r)\<in>set ps. CHR '':'' \<notin> set l \<and> CHR '','' \<notin> set l \<and> CHR '','' \<notin> set r \<and>
           strip l \<noteq> [] \<and> strip r \<noteq> []"
    and "distinct (map (\<lambda>(l, r). strip l) ps)"
  shows "(\<exists>fm. parse_files (Some (join '','' (map (\<lambda>(l, r). l @ CHR '':'' # r) ps))) st = (Inr fm, st) \<and>
            fm = map (\<lambda>(l, r). (strip l, strip r)) ps \<and>
            length fm = length ps \<and>
            (\<forall>(l, r)\<in>set ps. map_of fm (strip l) = Some (strip r))) \<and>
         parse_files None st = (Inr [], st) \<and>
         parse_files (Some []) st = (Inr [], st)"
proof -
  let ?kvs = "map (\<lambda>(l, r). (strip l, strip r)) ps"
  have keys: "map fst ?kvs = map (\<lambda>(l, r). strip l) ps"
    by (simp add: comp_def case_prod_unfold)
  have dist: "distinct (map fst ?kvs)" using assms(3) by (simp only: keys)
  have "fold (\<lambda>(k, v). AList.update k v) ?kvs [] = ?kvs"
    using fold_update_fresh [OF dist, of "[]"] by simp
  then have res: "parse_files (Some (join '','' (map (\<lambda>(l, r). l @ CHR '':'' # r) ps))) st = (Inr ?kvs, st)"
    using parse_files_well_formed [OF assms(1,2), of st] by simp
  have "\<forall>(l, r)\<in>set ps. map_of ?kvs (strip l) = Some (strip r)"
  proof (clarify)
    fix l r assume "(l, r) \<in> set ps"
    then have "(strip l, strip r) \<in> set ?kvs" by force
    with dist show "map_of ?kvs (strip l) = Some (strip r)" by (rule map_of_is_SomeI)
  qed
  with res show ?thesis by (simp add: parse_files_def)
qed

theorem parse_files_distinct_pairs_witness:
  "parse_files (Some ''f1.txt:test.txt, f2.py : src/test.py'') start =
     (Inr [(''f1.txt'', ''test.txt''), (''f2.py'', ''src/test.py'')], start)"
  using parse_files_distinct_pairs [of "[(''f1.txt'', ''test.txt''), ('' f2.py '', '' src/test.py'')]" start]
  by (simp add: strip_def is_space_def)

text \<open>
  The claim without the distinctness: \<open>a:b,a:c\<close> has two well-formed pairs, and the mapping
  returned has one entry, which is not the first pair.
\<close>

theorem parse_files_duplicate_local_counterexample:
  "fst (parse_files (Some ''a:b,a:c'') start) = Inr [(''a'', ''c'')] \<and>
   \<not> (\<exists>fm. fst (parse_files (Some ''a:b,a:c'') start) = Inr fm \<and> length fm = 2 \<and>
          map_of fm ''a'' = Some ''b'')"
  by (simp add: parse_files_def strip_def is_space_def split_once_def)

lemma parse_specs_malformed:
  assumes "bad \<in> set pieces"
    and "CHR '':'' \<notin> set bad \<or> strip (fst (split_once CHR '':'' bad)) = [] \<or>
         strip (snd (split_once CHR '':'' bad)) = []"
  shows "\<exists>msg. parse_specs pieces acc st = (Inl (SystemExit 1), write_err (ERROR msg) st)"
  using assms(1)
proof (induction pieces arbitrary: acc)
  case Nil
  then show ?case by simp
next
  case (Cons p pieces)
  show ?case
  proof (cases "CHR '':'' \<notin> set p \<or> strip (fst (split_once CHR '':'' p)) = [] \<or>
         strip (snd (split_once CHR '':'' p)) = []")
    case True
    then show ?thesis by (auto simp: Let_def)
  next
    case False
    with assms(2) have "p \<noteq> bad" by auto
    with Cons.prems have "bad \<in> set pieces" by simp
    from Cons.IH [OF this] False show ?thesis by (simp add: Let_def)
  qed
qed

text \<open>
  Claim C4. The input is the join of its comma-separated pieces. When it is not empty and
  one of its pieces has no colon, or has an empty side after trimming around its first
  colon, \<^verbatim>\<open>_parse_files\<close> writes one error line and exits with status 1. A pair is split at
  its first colon only: a remote path that holds colons is returned whole.
\<close>

theorem parse_files_invalid_format:
  "((\<forall>p\<in>set pieces. CHR '','' \<notin> set p) \<and> bad \<in> set pieces \<and> join '','' pieces \<noteq> [] \<and>
    (CHR '':'' \<notin> set bad \<or>
     (\<exists>l r. bad = l @ CHR '':'' # r \<and> CHR '':'' \<notin> set l \<and> (strip l = [] \<or> strip r = []))) \<longrightarrow>
      (\<exists>msg. parse_files (Some (join '','' pieces)) st =
         (Inl (SystemExit 1), write_err (ERROR msg) st) \<and>
         exit_status (fst (parse_files (Some (join '','' pieces)) st)) \<noteq> 0)) \<and>
   (CHR '':'' \<notin> set l' \<and> CHR '','' \<notin> set l' \<and> CHR '','' \<notin> set r' \<and> strip l' \<noteq> [] \<and> strip r' \<noteq> [] \<longrightarrow>
      parse_files (Some (l' @ CHR '':'' # r')) st = (Inr [(strip l', strip r')], st))"
proof (intro conjI impI)
  assume a: "(\<forall>p\<in>set pieces. CHR '','' \<notin> set p) \<and> bad \<in> set pieces \<and> join '','' pieces \<noteq> [] \<and>
    (CHR '':'' \<notin> set bad \<or>
     (\<exists>l r. bad = l @ CHR '':'' # r \<and> CHR '':'' \<notin> set l \<and> (strip l = [] \<or> strip r = [])))"
  then have "pieces \<noteq> []" by auto
  with a have sp: "split_on CHR '','' (join '','' pieces) = pieces"
    using split_on_join [of pieces "CHR '',''"] by simp
  from a have "CHR '':'' \<notin> set bad \<or> strip (fst (split_once CHR '':'' bad)) = [] \<or>
         strip (snd (split_once CHR '':'' bad)) = []"
    by (auto simp: split_once_first)
  with a obtain msg where
    "parse_specs pieces [] st = (Inl (SystemExit 1), write_err (ERROR msg) st)"
    using parse_specs_malformed [of bad pieces "[]" st] by blast
  with a sp show "\<exists>msg. parse_files (Some (join '','' pieces)) st =
         (Inl (SystemExit 1), write_err (ERROR msg) st) \<and>
         exit_status (fst (parse_files (Some (join '','' pieces)) st)) \<noteq> 0"
    by (auto simp: parse_files_def)
next
  assume b: "CHR '':'' \<notin> set l' \<and> CHR '','' \<notin> set l' \<and> CHR '','' \<notin> set r' \<and> strip l' \<noteq> [] \<and> strip r' \<noteq> []"
  then have "split_on CHR '','' (l' @ CHR '':'' # r') = [l' @ CHR '':'' # r']"
    by (simp add: split_on_no_sep)
  with b show "parse_files (Some (l' @ CHR '':'' # r')) st = (Inr [(strip l', strip r')], st)"
    by (simp add: parse_files_def split_once_first)
qed

theorem parse_files_invalid_format_witness:
  "fst (parse_files (Some '':remote.txt'') start) = Inl (SystemExit 1) \<and>
   fst (parse_files (Some ''local.txt:'') start) = Inl (SystemExit 1) \<and>
   fst (parse_files (Some ''a:b,invalid_format'') start) = Inl (SystemExit 1) \<and>
   parse_files (Some ''f.txt:C:/dir/f.txt'') start = (Inr [(''f.txt'', ''C:/dir/f.txt'')], start)"
  using parse_files_invalid_format [of "['':remote.txt'']" "'':remote.txt''" start "''f.txt''" "''C:/dir/f.txt''"]
    parse_files_invalid_format [of "[''local.txt:'']" "''local.txt:''" start "''f.txt''" "''C:/dir/f.txt''"]
    parse_files_invalid_format [of "[''a:b'', ''invalid_format'']" "''invalid_format''" start "''f.txt''" "''C:/dir/f.txt''"]
  by (auto simp: strip_def is_space_def Cons_eq_append_conv)

subsection \<open>Frames of the state\<close>

lemma write_out_fields [simp]:
  "calls (write_out l st) = calls st" "stdout (write_out l st) = stdout st @ [l]"
  "stderr (write_out l st) = stderr st" "checked (write_out l st) = checked st"
  by (simp_all add: write_out_def)

lemma write_err_fields [simp]:
  "calls (write_err l st) = calls st" "stdout (write_err l st) = stdout st"
  "stderr (write_err l st) = stderr st @ [l]" "checked (write_err l st) = checked st"
  by (simp_all add: write_err_def)

lemma request_fields [simp]:
  "fst (request gh c st) = gh (calls st) c"
  "calls (snd (request gh c st)) = calls st @ [c]"
  "stdout (snd (request gh c st)) = stdout st"
  "stderr (snd (request gh c st)) = stderr st"
  "checked (snd (request gh c st)) = checked st"
  by (simp_all add: request_def)

lemma request_eq: "request gh c st = (r, st') \<longleftrightarrow> r = gh (calls st) c \<and> st' = st\<lparr>calls := calls st @ [c]\<rparr>"
  by (auto simp: request_def)

lemma validate_file_path_checked [simp]:
  "checked (snd (validate_file_path fs p st)) = checked st @ [p]"
  by (simp add: validate_file_path_def Let_def split: path_stat.splits)

lemma read_file_content_checked [simp]:
  "checked (snd (read_file_content fs p st)) = checked st"
  by (simp add: read_file_content_def split: read_result.splits)

lemma put_file_checked [simp]:
  "checked (snd (put_file gh head remote_path content st)) = checked st"
  by (auto simp: put_file_def request_eq split: prod.splits sum.splits)

lemma validate_file_path_checkedD:
  "validate_file_path fs p st = (r, st') \<Longrightarrow> checked st' = checked st @ [p]"
  using validate_file_path_checked [of fs p st] by simp

lemma read_file_content_checkedD:
  "read_file_content fs p st = (r, st') \<Longrightarrow> checked st' = checked st"
  using read_file_content_checked [of fs p st] by simp

lemma put_file_checkedD:
  "put_file gh head remote_path content st = (r, st') \<Longrightarrow> checked st' = checked st"
  using put_file_checked [of gh head remote_path content st] by simp

lemma upload_one_checked [simp]:
  "checked (snd (upload_one gh fs head l r st)) = checked st @ [l]"
  by (auto simp: upload_one_def split: prod.splits sum.splits exn.splits
      dest!: validate_file_path_checkedD read_file_content_checkedD put_file_checkedD)

lemma upload_loop_checked:
  "\<exists>seen. checked (snd (upload_loop gh fs head fm st)) = checked st @ seen \<and>
     prefix seen (map fst fm)"
proof (induction fm arbitrary: st)
  case Nil
  then show ?case by simp
next
  case (Cons kv fm)
  obtain l r where kv: "kv = (l, r)" by (cases kv)
  obtain res st1 where one: "upload_one gh fs head l r st = (res, st1)"
    by (cases "upload_one gh fs head l r st")
  then have c1: "checked st1 = checked st @ [l]"
    using upload_one_checked [of gh fs head l r st] by simp
  show ?case
  proof (cases res)
    case (Inl e)
    with one c1 show ?thesis by (simp add: kv)
  next
    case (Inr u)
    from Cons.IH [of st1] obtain seen where
      "checked (snd (upload_loop gh fs head fm st1)) = checked st1 @ seen"
      "prefix seen (map fst fm)" by blast
    with one c1 Inr show ?thesis by (simp add: kv)
  qed
qed

lemma upload_files_checked:
  "\<exists>seen. checked (snd (upload_files gh fs head fm st)) = checked st @ seen \<and>
     prefix seen (map fst fm)"
proof -
  let ?st1 = "snd (request gh (GetBranch ''main'') st)"
  have none: ?thesis if "checked (snd (upload_files gh fs head fm st)) = checked st"
    using that by (intro exI [of _ "[]"]) simp
  have loop: ?thesis
    if "checked (snd (upload_files gh fs head fm st)) = checked (snd (upload_loop gh fs head fm st2))"
      and "checked st2 = checked st" for st2
    using that upload_loop_checked [of gh fs head fm st2] by simp
  show ?thesis
  proof (cases "gh (calls st) (GetBranch ''main'')")
    case (Inl f)
    then show ?thesis
      by (intro none) (simp add: upload_files_def request_def)
  next
    case (Inr base_sha)
    let ?st2 = "snd (request gh (CreateGitRef (''refs/heads/'' @ head) base_sha) ?st1)"
    have c2: "checked ?st2 = checked st" by simp
    have "checked (snd (upload_files gh fs head fm st)) = checked st \<or>
      checked (snd (upload_files gh fs head fm st)) = checked (snd (upload_loop gh fs head fm ?st2))"
      using Inr
      by (cases "gh (calls st @ [GetBranch ''main'']) (CreateGitRef (''refs/heads/'' @ head) base_sha)")
        (auto simp: upload_files_def request_def split: prod.splits sum.splits exn.splits)
    then show ?thesis using none loop [OF _ c2] by blast
  qed
qed

subsection \<open>Dry run output\<close>

lemma validate_file_path_ok:
  "stat fs p = Regular n \<Longrightarrow> n \<le> max_size \<Longrightarrow>
   validate_file_path fs p st = (Inr (resolve fs p), st\<lparr>checked := checked st @ [p]\<rparr>)"
  by (simp add: validate_file_path_def)

lemma validate_file_path_fails:
  "\<not> (\<exists>n. stat fs p = Regular n \<and> n \<le> max_size) \<Longrightarrow>
   \<exists>msg. validate_file_path fs p st =
     (Inl (SystemExit 1), write_err (ERROR msg) (st\<lparr>checked := checked st @ [p]\<rparr>))"
  by (cases "stat fs p") (auto simp: validate_file_path_def)

lemma validate_file_path_Inl_iff:
  "(\<exists>e. fst (validate_file_path fs p st) = Inl e) \<longleftrightarrow>
   \<not> (\<exists>n. stat fs p = Regular n \<and> n \<le> max_size)"
  by (cases "stat fs p") (auto simp: validate_file_path_def)

lemma dry_run_files_frame:
  "fst (dry_run_files fs files st) = Inr () \<and>
   calls (snd (dry_run_files fs files st)) = calls st \<and>
   stdout (snd (dry_run_files fs files st)) = stdout st @
     map (\<lambda>(l, r). Plain (''  '' @ l @ '' -> '' @ r @
        (case stat fs l of
           Regular n \<Rightarrow> if n \<le> max_size then '' ('' @ show_nat n @ '' bytes)''
                        else '' (FILE NOT FOUND)''
         | _ \<Rightarrow> '' (FILE NOT FOUND)''))) files"
proof (induction files arbitrary: st)
  case Nil
  then show ?case by simp
next
  case (Cons kv files)
  obtain l r where kv: "kv = (l, r)" by (cases kv)
  show ?case
  proof (cases "\<exists>n. stat fs l = Regular n \<and> n \<le> max_size")
    case True
    then obtain n where n: "stat fs l = Regular n" "n \<le> max_size" by blast
    show ?thesis
      using Cons.IH n by (simp add: kv validate_file_path_ok [OF n])
  next
    case False
    from validate_file_path_fails [OF False, of st] obtain msg where
      "validate_file_path fs l st =
         (Inl (SystemExit 1), write_err (ERROR msg) (st\<lparr>checked := checked st @ [l]\<rparr>))"
      by blast
    with Cons.IH False show ?thesis
      by (cases "stat fs l") (auto simp: kv)
  qed
qed

lemma show_dry_run_frame:
  "fst (show_dry_run fs repository title body base_branch head_branch files labels assignees
     reviewers draft st) = Inr () \<and>
   calls (snd (show_dry_run fs repository title body base_branch head_branch files labels
     assignees reviewers draft st)) = calls st \<and>
   stdout (snd (show_dry_run fs repository title body base_branch head_branch files labels
     assignees reviewers draft st)) = stdout st @
     [WARNING ''DRY RUN - No changes will be made'',
      Plain (''Repository: '' @ repository),
      Plain (''Title: '' @ title),
      Plain (''Body: '' @ body),
      Plain (''Base branch: '' @ base_branch),
      Plain (''Head branch: '' @ head_branch),
      Plain (''Draft: '' @ show_bool draft)] @
     (if files \<noteq> [] then
        Plain ''Files to upload:'' #
        map (\<lambda>(l, r). Plain (''  '' @ l @ '' -> '' @ r @
          (case stat fs l of
             Regular n \<Rightarrow> if n \<le> max_size then '' ('' @ show_nat n @ '' bytes)''
                          else '' (FILE NOT FOUND)''
           | _ \<Rightarrow> '' (FILE NOT FOUND)''))) files
      else []) @
     (if labels \<noteq> [] then [Plain (''Labels: '' @ join '', '' labels)] else []) @
     (if assignees \<noteq> [] then [Plain (''Assignees: '' @ join '', '' assignees)] else []) @
     (if reviewers \<noteq> [] then [Plain (''Reviewers: '' @ join '', '' reviewers)] else [])"
proof -
  let ?st7 = "write_out (Plain (''Draft: '' @ show_bool draft))
    (write_out (Plain (''Head branch: '' @ head_branch))
    (write_out (Plain (''Base branch: '' @ base_branch))
    (write_out (Plain (''Body: '' @ body))
    (write_out (Plain (''Title: '' @ title))
    (write_out (Plain (''Repository: '' @ repository))
    (write_out (WARNING ''DRY RUN - No changes will be made'') st))))))"
  let ?st8 = "write_out (Plain ''Files to upload:'') ?st7"
  obtain res st9 where d: "dry_run_files fs files ?st8 = (res, st9)"
    by (cases "dry_run_files fs files ?st8")
  from dry_run_files_frame [of fs files ?st8] d
  have "res = Inr ()" "calls st9 = calls st"
    "stdout st9 = stdout ?st8 @
     map (\<lambda>(l, r). Plain (''  '' @ l @ '' -> '' @ r @
        (case stat fs l of
           Regular n \<Rightarrow> if n \<le> max_size then '' ('' @ show_nat n @ '' bytes)''
                        else '' (FILE NOT FOUND)''
         | _ \<Rightarrow> '' (FILE NOT FOUND)''))) files"
    by simp_all
  with d show ?thesis
    by (simp add: show_dry_run_def Let_def)
qed

text \<open>
  Claim C10. In the dry-run output, a file of the mapping whose validation fails, for
  whatever reason, is printed with the marker \<^verbatim>\<open>(FILE NOT FOUND)\<close>: the loop catches the
  \<^verbatim>\<open>SystemExit\<close> of every failure alike. A directory and a file above 100 MiB are two such
  failures.
\<close>

theorem dry_run_marks_every_failure:
  assumes "(local_path, remote_path) \<in> set files"
    and "fst (validate_file_path fs local_path st') = Inl e"
  shows "Plain (''  '' @ local_path @ '' -> '' @ remote_path @ '' (FILE NOT FOUND)'') \<in>
     set (stdout (snd (show_dry_run fs repository title body base_branch head_branch files
       labels assignees reviewers draft st)))"
proof -
  from assms(2) have bad: "\<not> (\<exists>n. stat fs local_path = Regular n \<and> n \<le> max_size)"
    using validate_file_path_Inl_iff [of fs local_path st'] by blast
  let ?line = "\<lambda>(l, r). Plain (''  '' @ l @ '' -> '' @ r @
          (case stat fs l of
             Regular n \<Rightarrow> if n \<le> max_size then '' ('' @ show_nat n @ '' bytes)''
                          else '' (FILE NOT FOUND)''
           | _ \<Rightarrow> '' (FILE NOT FOUND)''))"
  from bad have "?line (local_path, remote_path) =
      Plain (''  '' @ local_path @ '' -> '' @ remote_path @ '' (FILE NOT FOUND)'')"
    by (cases "stat fs local_path") auto
  moreover from assms(1) have "?line (local_path, remote_path) \<in> set (map ?line files)"
    by (simp only: set_map) (rule imageI)
  ultimately have "Plain (''  '' @ local_path @ '' -> '' @ remote_path @ '' (FILE NOT FOUND)'') \<in>
      set (map ?line files)" by simp
  moreover from assms(1) have "files \<noteq> []" by auto
  ultimately show ?thesis
    using show_dry_run_frame [of fs repository title body base_branch head_branch files labels
        assignees reviewers draft st]
    by simp
qed

theorem dry_run_marks_every_failure_witness:
  "Plain ''  docs -> remote/docs (FILE NOT FOUND)'' \<in>
     set (stdout (snd (show_dry_run
       \<lparr>stat = (\<lambda>p. if p = ''docs'' then Directory else if p = ''big.bin'' then Regular 104857601
                  else Regular 12),
        resolve = id, read_text = Decoded\<rparr>
       ''OWASP/Nest'' ''Test PR'' ''Test description'' ''main'' ''feature/test''
       [(''ok.txt'', ''test.txt''), (''docs'', ''remote/docs''), (''big.bin'', ''big.bin'')]
       [] [] [] False start))) \<and>
   Plain ''  big.bin -> big.bin (FILE NOT FOUND)'' \<in>
     set (stdout (snd (show_dry_run
       \<lparr>stat = (\<lambda>p. if p = ''docs'' then Directory else if p = ''big.bin'' then Regular 104857601
                  else Regular 12),
        resolve = id, read_text = Decoded\<rparr>
       ''OWASP/Nest'' ''Test PR'' ''Test description'' ''main'' ''feature/test''
       [(''ok.txt'', ''test.txt''), (''docs'', ''remote/docs''), (''big.bin'', ''big.bin'')]
       [] [] [] False start)))"
proof -
  let ?fs = "\<lparr>stat = (\<lambda>p. if p = ''docs'' then Directory else if p = ''big.bin'' then Regular 104857601
                  else Regular 12),
        resolve = id, read_text = Decoded\<rparr>"
  let ?files = "[(''ok.txt'', ''test.txt''), (''docs'', ''remote/docs''), (''big.bin'', ''big.bin'')]"
  have d: "fst (validate_file_path ?fs ''docs'' start) = Inl (SystemExit 1)"
    by (simp add: validate_file_path_def)
  have b: "fst (validate_file_path ?fs ''big.bin'' start) = Inl (SystemExit 1)"
    by (simp add: validate_file_path_def max_size_def)
  have m1: "(''docs'', ''remote/docs'') \<in> set ?files" by simp
  have m2: "(''big.bin'', ''big.bin'') \<in> set ?files" by simp
  from dry_run_marks_every_failure [OF m1 d] dry_run_marks_every_failure [OF m2 b]
  show ?thesis by simp
qed

subsection \<open>Calls made by the stages\<close>

lemma put_file_calls:
  "\<exists>ext. calls (snd (put_file gh head remote_path content st)) = calls st @ ext \<and>
     (\<forall>c\<in>set ext. is_GetContents c \<or> is_UpdateFile c \<or> is_CreateFile c)"
  by (auto simp: put_file_def request_eq split: prod.splits sum.splits)

lemma validate_file_path_calls [simp]:
  "calls (snd (validate_file_path fs p st)) = calls st"
  by (simp add: validate_file_path_def Let_def split: path_stat.splits)

lemma read_file_content_calls [simp]:
  "calls (snd (read_file_content fs p st)) = calls st"
  by (simp add: read_file_content_def split: read_result.splits)

lemma validate_file_path_callsD:
  "validate_file_path fs p st = (r, st') \<Longrightarrow> calls st' = calls st"
  using validate_file_path_calls [of fs p st] by simp

lemma read_file_content_callsD:
  "read_file_content fs p st = (r, st') \<Longrightarrow> calls st' = calls st"
  using read_file_content_calls [of fs p st] by simp

lemma upload_one_calls:
  "\<exists>ext. calls (snd (upload_one gh fs head l r st)) = calls st @ ext \<and>
     (\<forall>c\<in>set ext. is_GetContents c \<or> is_UpdateFile c \<or> is_CreateFile c)"
proof -
  obtain res st1 where v: "validate_file_path fs l st = (res, st1)"
    by (cases "validate_file_path fs l st")
  then have c1: "calls st1 = calls st" by (rule validate_file_path_callsD)
  obtain res2 st2 where rd: "read_file_content fs l st1 = (res2, st2)"
    by (cases "read_file_content fs l st1")
  then have c2: "calls st2 = calls st" using c1 by (simp add: read_file_content_callsD)
  show ?thesis
  proof (cases res)
    case (Inl e)
    with v c1 show ?thesis by (cases e) (auto simp: upload_one_def)
  next
    case r1: (Inr path)
    show ?thesis
    proof (cases res2)
      case (Inl e)
      with v rd r1 c2 show ?thesis by (cases e) (auto simp: upload_one_def)
    next
      case (Inr content)
      obtain res3 st3 where p: "put_file gh head r content st2 = (res3, st3)"
        by (cases "put_file gh head r content st2")
      with put_file_calls [of gh head r content st2] c2 obtain ext where
        "calls st3 = calls st @ ext" "\<forall>c\<in>set ext. is_GetContents c \<or> is_UpdateFile c \<or> is_CreateFile c"
        by auto
      with v rd r1 Inr p show ?thesis
        by (auto simp: upload_one_def split: sum.splits exn.splits)
    qed
  qed
qed

lemma upload_loop_calls:
  "\<exists>ext. calls (snd (upload_loop gh fs head fm st)) = calls st @ ext \<and>
     (\<forall>c\<in>set ext. is_GetContents c \<or> is_UpdateFile c \<or> is_CreateFile c)"
proof (induction fm arbitrary: st)
  case Nil
  then show ?case by simp
next
  case (Cons kv fm)
  obtain l r where kv: "kv = (l, r)" by (cases kv)
  obtain res st1 where one: "upload_one gh fs head l r st = (res, st1)"
    by (cases "upload_one gh fs head l r st")
  with upload_one_calls [of gh fs head l r st] obtain ext1 where
    e1: "calls st1 = calls st @ ext1" "\<forall>c\<in>set ext1. is_GetContents c \<or> is_UpdateFile c \<or> is_CreateFile c"
    by auto
  show ?case
  proof (cases res)
    case (Inl e)
    with one e1 show ?thesis by (simp add: kv)
  next
    case (Inr u)
    from Cons.IH [of st1] obtain ext2 where
      "calls (snd (upload_loop gh fs head fm st1)) = calls st1 @ ext2"
      "\<forall>c\<in>set ext2. is_GetContents c \<or> is_UpdateFile c \<or> is_CreateFile c" by blast
    with one e1 Inr show ?thesis
      by (intro exI [of _ "ext1 @ ext2"]) (auto simp: kv)
  qed
qed

lemma upload_files_cases [case_names no_main ref_failed looped]:
  obtains
    (no_main) f where
      "gh (calls st) (GetBranch ''main'') = Inl f"
      "fst (upload_files gh fs head fm st) = Inl (Raised f)"
      "calls (snd (upload_files gh fs head fm st)) = calls st @ [GetBranch ''main'']"
  | (ref_failed) sha f where
      "gh (calls st) (GetBranch ''main'') = Inr sha"
      "gh (calls st @ [GetBranch ''main'']) (CreateGitRef (''refs/heads/'' @ head) sha) = Inl f"
      "\<not> (is_github f \<and> sublist ''Reference already exists'' (str f))"
      "fst (upload_files gh fs head fm st) = Inl (Raised f)"
      "calls (snd (upload_files gh fs head fm st)) =
         calls st @ [GetBranch ''main'', CreateGitRef (''refs/heads/'' @ head) sha]"
  | (looped) sha ext where
      "gh (calls st) (GetBranch ''main'') = Inr sha"
      "\<forall>f. gh (calls st @ [GetBranch ''main'']) (CreateGitRef (''refs/heads/'' @ head) sha) = Inl f
         \<longrightarrow> is_github f \<and> sublist ''Reference already exists'' (str f)"
      "calls (snd (upload_files gh fs head fm st)) =
         calls st @ GetBranch ''main'' # CreateGitRef (''refs/heads/'' @ head) sha # ext"
      "\<forall>c\<in>set ext. is_GetContents c \<or> is_UpdateFile c \<or> is_CreateFile c"
proof (cases "gh (calls st) (GetBranch ''main'')")
  case (Inl f)
  then have "fst (upload_files gh fs head fm st) = Inl (Raised f)"
    "calls (snd (upload_files gh fs head fm st)) = calls st @ [GetBranch ''main'']"
    by (simp_all add: upload_files_def request_def)
  with Inl show ?thesis by (rule no_main)
next
  case (Inr sha)
  let ?c = "CreateGitRef (''refs/heads/'' @ head) sha"
  let ?st1 = "st\<lparr>calls := calls st @ [GetBranch ''main'']\<rparr>"
  let ?st2 = "st\<lparr>calls := calls st @ [GetBranch ''main'', ?c]\<rparr>"
  have c2: "calls ?st2 = calls st @ [GetBranch ''main'', ?c]" by simp
  show ?thesis
  proof (cases "\<exists>f. gh (calls st @ [GetBranch ''main'']) ?c = Inl f \<and>
      \<not> (is_github f \<and> sublist ''Reference already exists'' (str f))")
    case True
    then obtain f where f: "gh (calls st @ [GetBranch ''main'']) ?c = Inl f"
      "\<not> (is_github f \<and> sublist ''Reference already exists'' (str f))" by blast
    have "fst (upload_files gh fs head fm st) = Inl (Raised f)"
      "calls (snd (upload_files gh fs head fm st)) = calls st @ [GetBranch ''main'', ?c]"
      using Inr f by (auto simp: upload_files_def request_def)
    with Inr f show ?thesis by (rule ref_failed)
  next
    case False
    then have ok: "\<forall>f. gh (calls st @ [GetBranch ''main'']) ?c = Inl f
         \<longrightarrow> is_github f \<and> sublist ''Reference already exists'' (str f)" by blast
    obtain res st3 where loop: "upload_loop gh fs head fm ?st2 = (res, st3)"
      by (cases "upload_loop gh fs head fm ?st2")
    with upload_loop_calls [of gh fs head fm ?st2] c2 obtain ext where
      ext: "calls st3 = calls st @ GetBranch ''main'' # ?c # ext"
        "\<forall>c\<in>set ext. is_GetContents c \<or> is_UpdateFile c \<or> is_CreateFile c"
      by auto
    have "calls (snd (upload_files gh fs head fm st)) = calls st3"
      using Inr ok loop
      by (cases "gh (calls st @ [GetBranch ''main'']) ?c")
        (auto simp: upload_files_def request_def split: sum.splits exn.splits)
    with Inr ok ext show ?thesis by (intro looped [of sha ext]) simp_all
  qed
qed

subsection \<open>Exit status of the stages\<close>

lemma parse_specs_exit:
  "fst (parse_specs pieces acc st) = Inl e \<Longrightarrow> e = SystemExit 1"
  by (induction pieces arbitrary: acc) (auto simp: Let_def split: if_splits)

lemma parse_specs_calls [simp]:
  "calls (snd (parse_specs pieces acc st)) = calls st"
  by (induction pieces arbitrary: acc) (auto simp: Let_def)

lemma parse_specs_stdout [simp]:
  "stdout (snd (parse_specs pieces acc st)) = stdout st"
  by (induction pieces arbitrary: acc) (auto simp: Let_def)

lemma parse_specs_Inr_state:
  "parse_specs pieces acc st = (Inr fm, st') \<Longrightarrow> st' = st"
  by (induction pieces arbitrary: acc) (auto simp: Let_def split: if_splits)

lemma parse_files_exit:
  "fst (parse_files files_str st) = Inl e \<Longrightarrow> e = SystemExit 1"
  by (auto simp: parse_files_def dest: parse_specs_exit split: option.splits if_splits)

lemma parse_files_calls [simp]:
  "calls (snd (parse_files files_str st)) = calls st"
  by (simp add: parse_files_def split: option.splits)

lemma parse_files_stdout [simp]:
  "stdout (snd (parse_files files_str st)) = stdout st"
  by (simp add: parse_files_def split: option.splits)

lemma parse_files_Inr_state:
  "parse_files files_str st = (Inr fm, st') \<Longrightarrow> st' = st"
  by (auto simp: parse_files_def dest: parse_specs_Inr_state split: option.splits if_splits)

lemma validate_file_path_exit:
  "fst (validate_file_path fs p st) = Inl e \<Longrightarrow> e = SystemExit 1"
  by (cases "stat fs p") (auto simp: validate_file_path_def Let_def split: if_splits)

lemma read_file_content_exit:
  "fst (read_file_content fs p st) = Inl (SystemExit n) \<Longrightarrow> n = 1"
  by (cases "read_text fs p") (auto simp: read_file_content_def)

lemma put_file_exit:
  "fst (put_file gh head remote_path content st) \<noteq> Inl (SystemExit n)"
  by (auto simp: put_file_def request_eq split: prod.splits sum.splits)

lemma upload_one_exit:
  "fst (upload_one gh fs head l r st) = Inl (SystemExit n) \<Longrightarrow> n = 1"
proof -
  assume a: "fst (upload_one gh fs head l r st) = Inl (SystemExit n)"
  obtain res st1 where v: "validate_file_path fs l st = (res, st1)"
    by (cases "validate_file_path fs l st")
  obtain res2 st2 where rd: "read_file_content fs l st1 = (res2, st2)"
    by (cases "read_file_content fs l st1")
  show ?thesis
  proof (cases res)
    case (Inl e)
    with v validate_file_path_exit [of fs l st e] have "e = SystemExit 1" by simp
    with a v Inl show ?thesis by (simp add: upload_one_def)
  next
    case r1: (Inr path)
    show ?thesis
    proof (cases res2)
      case (Inl e)
      with a v rd r1 read_file_content_exit [of fs l st1] show ?thesis
        by (cases e) (auto simp: upload_one_def split: if_splits)
    next
      case (Inr content)
      obtain res3 st3 where p: "put_file gh head r content st2 = (res3, st3)"
        by (cases "put_file gh head r content st2")
      with put_file_exit [of gh head r content st2 n] have "res3 \<noteq> Inl (SystemExit n)" by simp
      with a v rd r1 Inr p show ?thesis
        by (auto simp: upload_one_def split: sum.splits exn.splits if_splits)
    qed
  qed
qed

lemma upload_loop_exit:
  "fst (upload_loop gh fs head fm st) = Inl (SystemExit n) \<Longrightarrow> n = 1"
proof (induction fm arbitrary: st)
  case Nil
  then show ?case by simp
next
  case (Cons kv fm)
  obtain l r where kv: "kv = (l, r)" by (cases kv)
  obtain res st1 where one: "upload_one gh fs head l r st = (res, st1)"
    by (cases "upload_one gh fs head l r st")
  show ?case
  proof (cases res)
    case (Inl e)
    with one Cons.prems upload_one_exit [of gh fs head l r st n] show ?thesis
      by (simp add: kv)
  next
    case (Inr u)
    with one Cons.prems Cons.IH [of st1] show ?thesis by (simp add: kv)
  qed
qed

lemma upload_files_exit:
  "fst (upload_files gh fs head fm st) = Inl (SystemExit n) \<Longrightarrow> n = 1"
proof -
  assume a: "fst (upload_files gh fs head fm st) = Inl (SystemExit n)"
  show ?thesis
  proof (cases "gh (calls st) (GetBranch ''main'')")
    case (Inl f)
    with a show ?thesis by (simp add: upload_files_def request_def split: if_splits)
  next
    case (Inr sha)
    let ?st2 = "snd (request gh (CreateGitRef (''refs/heads/'' @ head) sha)
      (snd (request gh (GetBranch ''main'') st)))"
    obtain res st3 where loop: "upload_loop gh fs head fm ?st2 = (res, st3)"
      by (cases "upload_loop gh fs head fm ?st2")
    with upload_loop_exit [of gh fs head fm ?st2 n] have "res = Inl (SystemExit n) \<Longrightarrow> n = 1"
      by simp
    with a Inr loop show ?thesis
      by (cases "gh (calls st @ [GetBranch ''main'']) (CreateGitRef (''refs/heads/'' @ head) sha)")
        (auto simp: upload_files_def request_def split: sum.splits exn.splits if_splits)
  qed
qed

subsection \<open>Pull request creation and enrichment\<close>

lemma create_pull_request_calls [simp]:
  "calls (snd (create_pull_request gh title body base head draft st)) =
     calls st @ [CreatePull title body base head draft]"
  by (cases "gh (calls st) (CreatePull title body base head draft)")
    (simp_all add: create_pull_request_def request_def)

lemma create_pull_request_Inl:
  "gh (calls st) (CreatePull title body base head draft) = Inl f \<Longrightarrow>
   fst (create_pull_request gh title body base head draft st) = Inl (Raised f)"
  by (simp add: create_pull_request_def request_def)

lemma create_pull_request_Inr:
  "gh (calls st) (CreatePull title body base head draft) = Inr pr \<Longrightarrow>
   create_pull_request gh title body base head draft st =
     (Inr pr, st\<lparr>calls := calls st @ [CreatePull title body base head draft]\<rparr>)"
  by (simp add: create_pull_request_def request_def)




lemma add_labels_calls:
  "calls (snd (add_labels gh labels st)) = calls st @ [AddToLabels labels]"
  by (cases "gh (calls st) (AddToLabels labels)") (simp_all add: add_labels_def request_def)

lemma add_assignees_calls:
  "calls (snd (add_assignees gh assignees st)) = calls st @ [AddToAssignees assignees]"
  by (cases "gh (calls st) (AddToAssignees assignees)")
    (simp_all add: add_assignees_def request_def)

lemma add_reviewers_calls:
  "calls (snd (add_reviewers gh reviewers st)) = calls st @ [AddToReviewers reviewers]"
  by (cases "gh (calls st) (AddToReviewers reviewers)")
    (simp_all add: add_reviewers_def request_def)

lemma add_labels_callsD:
  "add_labels gh labels st = (r, st') \<Longrightarrow> calls st' = calls st @ [AddToLabels labels]"
  using add_labels_calls [of gh labels st] by simp

lemma add_assignees_callsD:
  "add_assignees gh assignees st = (r, st') \<Longrightarrow> calls st' = calls st @ [AddToAssignees assignees]"
  using add_assignees_calls [of gh assignees st] by simp

lemma add_reviewers_callsD:
  "add_reviewers gh reviewers st = (r, st') \<Longrightarrow> calls st' = calls st @ [AddToReviewers reviewers]"
  using add_reviewers_calls [of gh reviewers st] by simp

lemma enrich_calls:
  "\<exists>ext. calls (snd (enrich gh pr labels assignees reviewers st)) = calls st @ ext \<and>
     (\<forall>c\<in>set ext. enrichment c)"
  by (auto simp: enrich_def split: prod.splits sum.splits if_splits
      dest!: add_labels_callsD add_assignees_callsD add_reviewers_callsD)


subsection \<open>The shape of a run\<close>

lemma handle_except_fields [simp]:
  "calls (snd (handle_except (r, st))) = calls st"
  "stdout (snd (handle_except (r, st))) = stdout st"
  "checked (snd (handle_except (r, st))) = checked st"
  by (auto simp: handle_except_def split: sum.splits exn.splits fault.splits)

lemma handle_except_result:
  "fst (handle_except (r, st)) = (case r of Inl (Raised f) \<Rightarrow> Inl (SystemExit 1) | _ \<Rightarrow> r)"
  by (auto simp: handle_except_def split: sum.splits exn.splits fault.splits)

lemma handle_except_stderr_Inr [simp]:
  "stderr (snd (handle_except (Inr u, st))) = stderr st"
  by (simp add: handle_except_def)

lemma finish_fields:
  "calls (snd (handle_finally gh out)) = calls (snd out) @ [Close]"
  "stdout (snd (handle_finally gh out)) = stdout (snd out)"
  "stderr (snd (handle_finally gh out)) = stderr (snd out)"
  by (simp_all add: handle_finally_def request_def split: sum.splits)

lemma finish_result:
  "fst (handle_finally gh out) =
     (case gh (calls (snd out)) Close of Inl f \<Rightarrow> Inl (Raised f) | Inr u \<Rightarrow> fst out)"
  by (simp add: handle_finally_def request_def split: sum.splits)

lemma finish_exit:
  "exit_status (fst out) = 1 \<Longrightarrow> exit_status (fst (handle_finally gh out)) = 1"
  by (simp add: finish_result split: sum.splits)

lemma handle_except_snd:
  "calls (snd (handle_except out)) = calls (snd out)"
  "stdout (snd (handle_except out)) = stdout (snd out)"
  by (cases out; simp)+

lemma parse_specs_any_state:
  "parse_specs pieces acc st = (Inr fm, st') \<Longrightarrow> parse_specs pieces acc st'' = (Inr fm, st'')"
  by (induction pieces arbitrary: acc) (auto simp: Let_def split: if_splits)

lemma parse_files_any_state:
  "parse_files files_str st = (Inr fm, st') \<Longrightarrow> parse_files files_str st'' = (Inr fm, st'')"
  by (auto simp: parse_files_def dest: parse_specs_any_state split: option.splits if_splits)

lemma deliver_cases [case_names upload_failed pull_failed pull_ok]:
  obtains
    (upload_failed) e st1 where
      "fm \<noteq> []"
      "upload_files gh fs (opt_head_branch opts) fm st = (Inl e, st1)"
      "deliver gh fs opts fm labels assignees reviewers st = (Inl e, st1)"
  | (pull_failed) st1 f where
      "(if fm \<noteq> [] then upload_files gh fs (opt_head_branch opts) fm st else (Inr (), st)) =
         (Inr (), st1)"
      "gh (calls st1) (CreatePull (opt_title opts) (opt_body opts) (opt_base_branch opts)
         (opt_head_branch opts) (opt_draft opts)) = Inl f"
      "fst (deliver gh fs opts fm labels assignees reviewers st) = Inl (Raised f)"
      "calls (snd (deliver gh fs opts fm labels assignees reviewers st)) =
         calls st1 @ [CreatePull (opt_title opts) (opt_body opts) (opt_base_branch opts)
           (opt_head_branch opts) (opt_draft opts)]"
  | (pull_ok) st1 pr where
      "(if fm \<noteq> [] then upload_files gh fs (opt_head_branch opts) fm st else (Inr (), st)) =
         (Inr (), st1)"
      "gh (calls st1) (CreatePull (opt_title opts) (opt_body opts) (opt_base_branch opts)
         (opt_head_branch opts) (opt_draft opts)) = Inr pr"
      "deliver gh fs opts fm labels assignees reviewers st =
         enrich gh pr labels assignees reviewers
           (st1\<lparr>calls := calls st1 @ [CreatePull (opt_title opts) (opt_body opts)
              (opt_base_branch opts) (opt_head_branch opts) (opt_draft opts)]\<rparr>)"
proof -
  let ?cp = "CreatePull (opt_title opts) (opt_body opts) (opt_base_branch opts)
         (opt_head_branch opts) (opt_draft opts)"
  obtain r1 st1 where up:
    "(if fm \<noteq> [] then upload_files gh fs (opt_head_branch opts) fm st else (Inr (), st)) = (r1, st1)"
    by (cases "if fm \<noteq> [] then upload_files gh fs (opt_head_branch opts) fm st else (Inr (), st)")
  show ?thesis
  proof (cases r1)
    case (Inl e)
    with up have "fm \<noteq> []" by (auto split: if_splits)
    moreover from this up Inl have "upload_files gh fs (opt_head_branch opts) fm st = (Inl e, st1)"
      by simp
    moreover from up Inl have "deliver gh fs opts fm labels assignees reviewers st = (Inl e, st1)"
      by (simp add: deliver_def)
    ultimately show ?thesis by (rule upload_failed)
  next
    case (Inr u)
    with up have up': "(if fm \<noteq> [] then upload_files gh fs (opt_head_branch opts) fm st
        else (Inr (), st)) = (Inr (), st1)" by simp
    show ?thesis
    proof (cases "gh (calls st1) ?cp")
      case (Inl f)
      have "fst (deliver gh fs opts fm labels assignees reviewers st) = Inl (Raised f)"
        using Inl by (simp add: deliver_def up' create_pull_request_def request_def)
      moreover have "calls (snd (deliver gh fs opts fm labels assignees reviewers st)) =
          calls st1 @ [?cp]"
        using Inl by (simp add: deliver_def up' create_pull_request_def request_def)
      ultimately show ?thesis using up' Inl by (intro pull_failed [of st1 f])
    next
      case r: (Inr pr)
      have "deliver gh fs opts fm labels assignees reviewers st =
         enrich gh pr labels assignees reviewers (st1\<lparr>calls := calls st1 @ [?cp]\<rparr>)"
        using r by (simp add: deliver_def up' create_pull_request_def request_def)
      with up' r show ?thesis by (intro pull_ok [of st1 pr])
    qed
  qed
qed

lemma handle_no_slash:
  "CHR ''/'' \<notin> set (opt_repository opts) \<Longrightarrow>
   handle gh fs opts st =
     (Inl (SystemExit 1),
      write_err (ERROR (''Invalid repository format: '' @ opt_repository opts @
        ''. Expected format: '' @ apostrophe @ ''owner/repo'' @ apostrophe)) st)"
  by (simp add: handle_def handle_except_def)

lemma handle_cases [case_names idle dry delivering]:
  obtains
    (idle) "\<forall>c\<in>set (calls (snd (handle gh fs opts start))). \<not> mutating c"
      "exit_status (fst (handle gh fs opts start)) = 1"
  | (dry) fm where
      "opt_dry_run opts"
      "CHR ''/'' \<in> set (opt_repository opts)"
      "\<exists>x. gh [] GetClient = Inr x"
      "\<exists>x. gh [GetClient] (GetRepo (opt_repository opts)) = Inr x"
      "\<exists>x. gh [GetClient, GetRepo (opt_repository opts)] (GetBranch (opt_base_branch opts)) = Inr x"
      "parse_files (opt_files opts) start = (Inr fm, start)"
      "handle gh fs opts start =
         handle_finally gh (handle_except
            (show_dry_run fs (opt_repository opts) (opt_title opts) (opt_body opts)
              (opt_base_branch opts) (opt_head_branch opts) fm (parse_list (opt_labels opts))
              (parse_list (opt_assignees opts)) (parse_list (opt_reviewers opts)) (opt_draft opts)
              (start\<lparr>calls := [GetClient, GetRepo (opt_repository opts),
                 GetBranch (opt_base_branch opts)]\<rparr>)))"
  | (delivering) fm where
      "\<not> opt_dry_run opts"
      "CHR ''/'' \<in> set (opt_repository opts)"
      "\<exists>x. gh [] GetClient = Inr x"
      "\<exists>x. gh [GetClient] (GetRepo (opt_repository opts)) = Inr x"
      "\<exists>x. gh [GetClient, GetRepo (opt_repository opts)] (GetBranch (opt_base_branch opts)) = Inr x"
      "parse_files (opt_files opts) start = (Inr fm, start)"
      "handle gh fs opts start =
         handle_finally gh (handle_except
            (deliver gh fs opts fm (parse_list (opt_labels opts))
              (parse_list (opt_assignees opts)) (parse_list (opt_reviewers opts))
              (start\<lparr>calls := [GetClient, GetRepo (opt_repository opts),
                 GetBranch (opt_base_branch opts)]\<rparr>)))"
proof (cases "CHR ''/'' \<in> set (opt_repository opts)")
  case False
  then show ?thesis
    by (intro idle) (simp_all add: handle_no_slash start_def)
next
  case slash: True
  show ?thesis
  proof (cases "gh [] GetClient")
    case (Inl f)
    with slash have "handle gh fs opts start =
        handle_except (Inl (Raised f), start\<lparr>calls := [GetClient]\<rparr>)"
      by (simp add: handle_def request_def start_def)
    then show ?thesis
      by (intro idle) (simp_all add: handle_except_result start_def)
  next
    case client: (Inr x)
    let ?st1 = "start\<lparr>calls := [GetClient]\<rparr>"
    have h: "handle gh fs opts start =
        handle_finally gh (handle_except (handle_body gh fs opts ?st1))"
      using slash client by (simp add: handle_def request_def start_def)
    show ?thesis
    proof (cases "gh [GetClient] (GetRepo (opt_repository opts))")
      case (Inl f)
      then have "handle_body gh fs opts ?st1 =
          (if is_github f then
             (Inl (SystemExit 1), write_err (ERROR (''Failed to access repository '' @
                opt_repository opts @ '': '' @ str f))
                (start\<lparr>calls := [GetClient, GetRepo (opt_repository opts)]\<rparr>))
           else (Inl (Raised f), start\<lparr>calls := [GetClient, GetRepo (opt_repository opts)]\<rparr>))"
        by (simp add: handle_body_def request_def start_def)
      then have "calls (snd (handle_body gh fs opts ?st1)) = [GetClient, GetRepo (opt_repository opts)]"
        "fst (handle_except (handle_body gh fs opts ?st1)) = Inl (SystemExit 1)"
        by (simp_all add: handle_except_result start_def)
      then show ?thesis
        by (intro idle) (simp_all add: h finish_fields finish_exit handle_except_snd)
    next
      case repo: (Inr y)
      show ?thesis
      proof (cases "gh [GetClient, GetRepo (opt_repository opts)] (GetBranch (opt_base_branch opts))")
        case (Inl f)
        then have "handle_body gh fs opts ?st1 =
          (if is_github f then
             (Inl (SystemExit 1), write_err (ERROR (''Base branch '' @ apostrophe @
                opt_base_branch opts @ apostrophe @ '' not found: '' @ str f))
                (start\<lparr>calls := [GetClient, GetRepo (opt_repository opts),
                   GetBranch (opt_base_branch opts)]\<rparr>))
           else (Inl (Raised f), start\<lparr>calls := [GetClient, GetRepo (opt_repository opts),
                   GetBranch (opt_base_branch opts)]\<rparr>))"
          using repo by (simp add: handle_body_def request_def start_def)
        then have "calls (snd (handle_body gh fs opts ?st1)) =
            [GetClient, GetRepo (opt_repository opts), GetBranch (opt_base_branch opts)]"
          "fst (handle_except (handle_body gh fs opts ?st1)) = Inl (SystemExit 1)"
          by (simp_all add: handle_except_result start_def)
        then show ?thesis
          by (intro idle) (simp_all add: h finish_fields finish_exit handle_except_snd)
      next
        case branch: (Inr z)
        let ?st3 = "start\<lparr>calls := [GetClient, GetRepo (opt_repository opts),
                   GetBranch (opt_base_branch opts)]\<rparr>"
        obtain pr st3' where parse: "parse_files (opt_files opts) ?st3 = (pr, st3')"
          by (cases "parse_files (opt_files opts) ?st3")
        have parse_calls: "calls st3' = calls ?st3"
          using parse_files_calls [of "opt_files opts" ?st3] parse by simp
        show ?thesis
        proof (cases pr)
          case (Inl e)
          with parse parse_files_exit [of "opt_files opts" ?st3 e] have e: "e = SystemExit 1"
            by simp
          have "handle_body gh fs opts ?st1 = (Inl (SystemExit 1), st3')"
            using repo branch parse Inl e by (simp add: handle_body_def request_def start_def)
          with parse_calls have "calls (snd (handle_body gh fs opts ?st1)) =
              [GetClient, GetRepo (opt_repository opts), GetBranch (opt_base_branch opts)]"
            "fst (handle_except (handle_body gh fs opts ?st1)) = Inl (SystemExit 1)"
            by (simp_all add: handle_except_result start_def)
          then show ?thesis
            by (intro idle) (simp_all add: h finish_fields finish_exit handle_except_snd)
        next
          case (Inr fm)
          with parse have st3': "st3' = ?st3" by (simp add: parse_files_Inr_state)
          have indep: "parse_files (opt_files opts) start = (Inr fm, start)"
            using parse Inr by (auto dest: parse_files_any_state)
          show ?thesis
          proof (cases "opt_dry_run opts")
            case True
            have "handle_body gh fs opts ?st1 =
              show_dry_run fs (opt_repository opts) (opt_title opts) (opt_body opts)
              (opt_base_branch opts) (opt_head_branch opts) fm (parse_list (opt_labels opts))
              (parse_list (opt_assignees opts)) (parse_list (opt_reviewers opts)) (opt_draft opts)
              ?st3"
              using repo branch parse Inr st3' True
              by (simp add: handle_body_def request_def start_def)
            with h slash client repo branch indep True show ?thesis
              by (intro dry [of fm]) simp_all
          next
            case False
            have "handle_body gh fs opts ?st1 =
              deliver gh fs opts fm (parse_list (opt_labels opts))
              (parse_list (opt_assignees opts)) (parse_list (opt_reviewers opts)) ?st3"
              using repo branch parse Inr st3' False
              by (simp add: handle_body_def request_def start_def)
            with h slash client repo branch indep False show ?thesis
              by (intro delivering [of fm]) simp_all
          qed
        qed
      qed
    qed
  qed
qed

lemma upload_files_calls:
  "\<exists>U. calls (snd (upload_files gh fs head fm st)) = calls st @ U \<and>
     (\<forall>c\<in>set U. is_GetBranch c \<or> is_CreateGitRef c \<or> is_GetContents c \<or> is_UpdateFile c \<or>
        is_CreateFile c)"
proof (cases rule: upload_files_cases [where gh = gh and st = st and head = head and fs = fs and fm = fm])
  case (no_main f)
  then show ?thesis by simp
next
  case (ref_failed sha f)
  then show ?thesis by simp
next
  case (looped sha ext)
  then show ?thesis by auto
qed

lemma upload_stage_calls:
  assumes "(if fm \<noteq> [] then upload_files gh fs head fm st else (Inr (), st)) = (r, st1)"
  shows "\<exists>U. calls st1 = calls st @ U \<and>
     (\<forall>c\<in>set U. is_GetBranch c \<or> is_CreateGitRef c \<or> is_GetContents c \<or> is_UpdateFile c \<or>
        is_CreateFile c)"
proof (cases "fm = []")
  case True
  with assms show ?thesis by simp
next
  case False
  with assms have "st1 = snd (upload_files gh fs head fm st)" by simp
  with upload_files_calls [of gh fs head fm st] show ?thesis by simp
qed

lemma deliver_calls:
  "\<exists>ext. calls (snd (deliver gh fs opts fm labels assignees reviewers st)) = calls st @ ext"
proof (cases rule: deliver_cases [where gh = gh and st = st and opts = opts and fs = fs and fm = fm
      and labels = labels and assignees = assignees and reviewers = reviewers])
  case (upload_failed e st1)
  with upload_files_calls [of gh fs "opt_head_branch opts" fm st] show ?thesis by auto
next
  case (pull_failed st1 f)
  with upload_stage_calls [OF pull_failed(1)] show ?thesis by auto
next
  case (pull_ok st1 pr)
  let ?cp = "CreatePull (opt_title opts) (opt_body opts) (opt_base_branch opts)
    (opt_head_branch opts) (opt_draft opts)"
  from enrich_calls [of gh pr labels assignees reviewers "st1\<lparr>calls := calls st1 @ [?cp]\<rparr>"]
    upload_stage_calls [OF pull_ok(1)] pull_ok(3)
  show ?thesis by auto
qed

lemma handle_body_calls:
  "\<exists>ext. calls (snd (handle_body gh fs opts st)) = calls st @ ext"
proof -
  have dry: "calls (snd (show_dry_run fs a b c d e fm ls as rs dr st')) = calls st'"
    for a b c d e fm ls as rs dr st'
    using show_dry_run_frame [of fs a b c d e fm ls as rs dr st'] by simp
  have del: "calls st' = calls st @ pre \<Longrightarrow>
      \<exists>ext. calls (snd (deliver gh fs opts fm ls as rs st')) = calls st @ ext"
    for fm ls as rs st' pre
    using deliver_calls [of gh fs opts fm ls as rs st'] by auto
  have parse: "parse_files s st' = (r, st'') \<Longrightarrow> calls st'' = calls st'" for s st' r st''
    using parse_files_calls [of s st'] by simp
  show ?thesis
    unfolding handle_body_def
    by (auto simp: request_eq Let_def dry split: prod.splits sum.splits dest!: parse intro: del)
qed

text \<open>
  Claim C1, as amended. The only check on the repository identifier is that it holds a
  \<open>/\<close>. Without one, the command writes the format error and exits with status 1 before
  any call is made. With one, also when a segment is empty, the check passes and the
  first thing the run does is to ask for the client.
\<close>

theorem handle_rejects_missing_slash:
  "(CHR ''/'' \<notin> set (opt_repository opts) \<longrightarrow>
      handle gh fs opts start =
        (Inl (SystemExit 1),
         start\<lparr>stderr := [ERROR (''Invalid repository format: '' @ opt_repository opts @
           ''. Expected format: '' @ apostrophe @ ''owner/repo'' @ apostrophe)]\<rparr>) \<and>
      exit_status (fst (handle gh fs opts start)) = 1 \<and>
      calls (snd (handle gh fs opts start)) = []) \<and>
   (CHR ''/'' \<in> set (opt_repository opts) \<longrightarrow>
      (\<exists>rest. calls (snd (handle gh fs opts start)) = GetClient # rest))"
proof (intro conjI impI)
  assume no: "CHR ''/'' \<notin> set (opt_repository opts)"
  show "handle gh fs opts start =
        (Inl (SystemExit 1),
         start\<lparr>stderr := [ERROR (''Invalid repository format: '' @ opt_repository opts @
           ''. Expected format: '' @ apostrophe @ ''owner/repo'' @ apostrophe)]\<rparr>)"
    by (simp add: handle_no_slash [OF no] write_err_def start_def)
  show "exit_status (fst (handle gh fs opts start)) = 1"
    by (simp add: handle_no_slash [OF no])
  show "calls (snd (handle gh fs opts start)) = []"
    by (simp add: handle_no_slash [OF no] start_def)
next
  assume yes: "CHR ''/'' \<in> set (opt_repository opts)"
  show "\<exists>rest. calls (snd (handle gh fs opts start)) = GetClient # rest"
  proof (cases "gh [] GetClient")
    case (Inl f)
    with yes show ?thesis
      by (simp add: handle_def request_def start_def handle_except_snd)
  next
    case (Inr x)
    from handle_body_calls [of gh fs opts "start\<lparr>calls := [GetClient]\<rparr>"]
    obtain ext where "calls (snd (handle_body gh fs opts (start\<lparr>calls := [GetClient]\<rparr>))) =
        GetClient # ext" by auto
    with yes Inr show ?thesis
      by (simp add: handle_def request_def start_def finish_fields handle_except_snd)
  qed
qed

theorem handle_rejects_missing_slash_witness:
  "handle (\<lambda>h c. Inr '''') \<lparr>stat = (\<lambda>p. Absent), resolve = id, read_text = Decoded\<rparr>
     \<lparr>opt_repository = ''invalid-repo'', opt_title = ''Test PR'', opt_body = ''Test description'',
      opt_base_branch = ''main'', opt_head_branch = ''feature/test'', opt_files = None,
      opt_labels = None, opt_assignees = None, opt_reviewers = None, opt_draft = False,
      opt_dry_run = False\<rparr> start =
     (Inl (SystemExit 1),
      start\<lparr>stderr := [ERROR (''Invalid repository format: invalid-repo. Expected format: '' @
         apostrophe @ ''owner/repo'' @ apostrophe)]\<rparr>) \<and>
   (\<exists>rest. calls (snd (handle (\<lambda>h c. Inr '''')
       \<lparr>stat = (\<lambda>p. Absent), resolve = id, read_text = Decoded\<rparr>
       \<lparr>opt_repository = ''owner/'', opt_title = ''Test PR'', opt_body = ''Test description'',
        opt_base_branch = ''main'', opt_head_branch = ''feature/test'', opt_files = None,
        opt_labels = None, opt_assignees = None, opt_reviewers = None, opt_draft = False,
        opt_dry_run = False\<rparr> start)) = GetClient # rest)"
  using handle_rejects_missing_slash [of
      "\<lparr>opt_repository = ''invalid-repo'', opt_title = ''Test PR'', opt_body = ''Test description'',
      opt_base_branch = ''main'', opt_head_branch = ''feature/test'', opt_files = None,
      opt_labels = None, opt_assignees = None, opt_reviewers = None, opt_draft = False,
      opt_dry_run = False\<rparr>" "\<lambda>h c. Inr ''''"
      "\<lparr>stat = (\<lambda>p. Absent), resolve = id, read_text = Decoded\<rparr>"]
    handle_rejects_missing_slash [of
      "\<lparr>opt_repository = ''owner/'', opt_title = ''Test PR'', opt_body = ''Test description'',
      opt_base_branch = ''main'', opt_head_branch = ''feature/test'', opt_files = None,
      opt_labels = None, opt_assignees = None, opt_reviewers = None, opt_draft = False,
      opt_dry_run = False\<rparr>" "\<lambda>h c. Inr ''''"
      "\<lparr>stat = (\<lambda>p. Absent), resolve = id, read_text = Decoded\<rparr>"]
  by simp

text \<open>
  The claim as stated fails at \<open>owner/\<close>: the second segment is empty, and yet a dry run
  against a remote side that answers every call authenticates, looks the repository and
  the base branch up, and returns with status 0.
\<close>

theorem handle_empty_segment_counterexample:
  "split_once CHR ''/'' ''owner/'' = (''owner'', '''') \<and>
   fst (handle (\<lambda>h c. Inr '''') \<lparr>stat = (\<lambda>p. Absent), resolve = id, read_text = Decoded\<rparr>
     \<lparr>opt_repository = ''owner/'', opt_title = ''Test PR'', opt_body = ''Test description'',
      opt_base_branch = ''main'', opt_head_branch = ''feature/test'', opt_files = None,
      opt_labels = None, opt_assignees = None, opt_reviewers = None, opt_draft = False,
      opt_dry_run = True\<rparr> start) = Inr () \<and>
   calls (snd (handle (\<lambda>h c. Inr '''') \<lparr>stat = (\<lambda>p. Absent), resolve = id, read_text = Decoded\<rparr>
     \<lparr>opt_repository = ''owner/'', opt_title = ''Test PR'', opt_body = ''Test description'',
      opt_base_branch = ''main'', opt_head_branch = ''feature/test'', opt_files = None,
      opt_labels = None, opt_assignees = None, opt_reviewers = None, opt_draft = False,
      opt_dry_run = True\<rparr> start)) =
     [GetClient, GetRepo ''owner/'', GetBranch ''main'', Close]"
  by (simp add: split_once_def handle_def handle_body_def handle_except_def handle_finally_def
      request_def start_def parse_files_def parse_list_def show_dry_run_def write_out_def
      show_bool_def)

subsection \<open>Dry run\<close>

lemma handle_valid:
  assumes "CHR ''/'' \<in> set (opt_repository opts)"
    and "gh [] GetClient = Inr client"
    and "gh [GetClient] (GetRepo (opt_repository opts)) = Inr repo"
    and "gh [GetClient, GetRepo (opt_repository opts)] (GetBranch (opt_base_branch opts)) = Inr base"
    and "parse_files (opt_files opts) start = (Inr fm, start)"
  shows "handle gh fs opts start =
     handle_finally gh (handle_except
       (if opt_dry_run opts then
          show_dry_run fs (opt_repository opts) (opt_title opts) (opt_body opts)
            (opt_base_branch opts) (opt_head_branch opts) fm (parse_list (opt_labels opts))
            (parse_list (opt_assignees opts)) (parse_list (opt_reviewers opts)) (opt_draft opts)
            (start\<lparr>calls := [GetClient, GetRepo (opt_repository opts),
               GetBranch (opt_base_branch opts)]\<rparr>)
        else
          deliver gh fs opts fm (parse_list (opt_labels opts)) (parse_list (opt_assignees opts))
            (parse_list (opt_reviewers opts))
            (start\<lparr>calls := [GetClient, GetRepo (opt_repository opts),
               GetBranch (opt_base_branch opts)]\<rparr>)))"
proof -
  let ?st3 = "start\<lparr>calls := [GetClient, GetRepo (opt_repository opts),
               GetBranch (opt_base_branch opts)]\<rparr>"
  have "parse_files (opt_files opts) ?st3 = (Inr fm, ?st3)"
    using assms(5) by (rule parse_files_any_state)
  then have p: "parse_files (opt_files opts)
      \<lparr>calls = [GetClient, GetRepo (opt_repository opts), GetBranch (opt_base_branch opts)],
       stdout = [], stderr = [], checked = []\<rparr> =
     (Inr fm, \<lparr>calls = [GetClient, GetRepo (opt_repository opts), GetBranch (opt_base_branch opts)],
       stdout = [], stderr = [], checked = []\<rparr>)"
    by (simp add: start_def)
  show ?thesis
    using assms(1-4)
    by (simp add: handle_def handle_body_def request_def start_def p)
qed

text \<open>
  Claim C8. A run with the dry-run flag makes no mutating remote call, whatever its
  inputs. With valid inputs (an identifier with a \<open>/\<close>, a client, a repository and a base
  branch that are found, a file mapping that parses) its calls are the three lookups and
  the release of the client, and its output is the description of what would be done: the
  parameters, one line for each file, and the lists. It returns normally unless the
  release of the client raises.
\<close>

theorem dry_run_makes_no_changes:
  assumes "opt_dry_run opts"
  shows "filter mutating (calls (snd (handle gh fs opts start))) = [] \<and>
    (CHR ''/'' \<in> set (opt_repository opts) \<and>
     gh [] GetClient = Inr client \<and>
     gh [GetClient] (GetRepo (opt_repository opts)) = Inr repo \<and>
     gh [GetClient, GetRepo (opt_repository opts)] (GetBranch (opt_base_branch opts)) = Inr base \<and>
     parse_files (opt_files opts) start = (Inr files, start) \<longrightarrow>
       fst (handle gh fs opts start) =
         (case gh [GetClient, GetRepo (opt_repository opts), GetBranch (opt_base_branch opts)]
                 Close of
            Inl f \<Rightarrow> Inl (Raised f)
          | Inr u \<Rightarrow> Inr ()) \<and>
       calls (snd (handle gh fs opts start)) =
         [GetClient, GetRepo (opt_repository opts), GetBranch (opt_base_branch opts), Close] \<and>
       stdout (snd (handle gh fs opts start)) =
         [WARNING ''DRY RUN - No changes will be made'',
          Plain (''Repository: '' @ opt_repository opts),
          Plain (''Title: '' @ opt_title opts),
          Plain (''Body: '' @ opt_body opts),
          Plain (''Base branch: '' @ opt_base_branch opts),
          Plain (''Head branch: '' @ opt_head_branch opts),
          Plain (''Draft: '' @ show_bool (opt_draft opts))] @
         (if files \<noteq> [] then
            Plain ''Files to upload:'' #
            map (\<lambda>(l, r). Plain (''  '' @ l @ '' -> '' @ r @
              (case stat fs l of
                 Regular n \<Rightarrow> if n \<le> max_size then '' ('' @ show_nat n @ '' bytes)''
                              else '' (FILE NOT FOUND)''
               | _ \<Rightarrow> '' (FILE NOT FOUND)''))) files
          else []) @
         (if parse_list (opt_labels opts) \<noteq> [] then
            [Plain (''Labels: '' @ join '', '' (parse_list (opt_labels opts)))] else []) @
         (if parse_list (opt_assignees opts) \<noteq> [] then
            [Plain (''Assignees: '' @ join '', '' (parse_list (opt_assignees opts)))] else []) @
         (if parse_list (opt_reviewers opts) \<noteq> [] then
            [Plain (''Reviewers: '' @ join '', '' (parse_list (opt_reviewers opts)))] else []))"
proof (intro conjI impI)
  show "filter mutating (calls (snd (handle gh fs opts start))) = []"
  proof (cases rule: handle_cases [where gh = gh and fs = fs and opts = opts])
    case idle
    then show ?thesis by (simp add: filter_empty_conv)
  next
    case (dry fm)
    let ?st3 = "start\<lparr>calls := [GetClient, GetRepo (opt_repository opts),
               GetBranch (opt_base_branch opts)]\<rparr>"
    have "calls (snd (handle gh fs opts start)) = calls ?st3 @ [Close]"
      using show_dry_run_frame [of fs "opt_repository opts" "opt_title opts" "opt_body opts"
          "opt_base_branch opts" "opt_head_branch opts" fm "parse_list (opt_labels opts)"
          "parse_list (opt_assignees opts)" "parse_list (opt_reviewers opts)" "opt_draft opts" ?st3]
      by (simp add: dry(7) finish_fields handle_except_snd)
    then show ?thesis by simp
  next
    case (delivering fm)
    with assms show ?thesis by simp
  qed
next
  assume valid: "CHR ''/'' \<in> set (opt_repository opts) \<and>
     gh [] GetClient = Inr client \<and>
     gh [GetClient] (GetRepo (opt_repository opts)) = Inr repo \<and>
     gh [GetClient, GetRepo (opt_repository opts)] (GetBranch (opt_base_branch opts)) = Inr base \<and>
     parse_files (opt_files opts) start = (Inr files, start)"
  let ?st3 = "start\<lparr>calls := [GetClient, GetRepo (opt_repository opts),
               GetBranch (opt_base_branch opts)]\<rparr>"
  let ?dry = "show_dry_run fs (opt_repository opts) (opt_title opts) (opt_body opts)
            (opt_base_branch opts) (opt_head_branch opts) files (parse_list (opt_labels opts))
            (parse_list (opt_assignees opts)) (parse_list (opt_reviewers opts)) (opt_draft opts)
            ?st3"
  have h: "handle gh fs opts start = handle_finally gh (handle_except ?dry)"
    using valid assms handle_valid [of opts gh client repo base files fs] by simp
  note frame = show_dry_run_frame [of fs "opt_repository opts" "opt_title opts" "opt_body opts"
          "opt_base_branch opts" "opt_head_branch opts" files "parse_list (opt_labels opts)"
          "parse_list (opt_assignees opts)" "parse_list (opt_reviewers opts)" "opt_draft opts" ?st3]
  from frame have res: "fst ?dry = Inr ()" by simp
  show "fst (handle gh fs opts start) =
         (case gh [GetClient, GetRepo (opt_repository opts), GetBranch (opt_base_branch opts)]
                 Close of
            Inl f \<Rightarrow> Inl (Raised f)
          | Inr u \<Rightarrow> Inr ())"
  proof -
    have c: "calls (snd (handle_except ?dry)) =
        [GetClient, GetRepo (opt_repository opts), GetBranch (opt_base_branch opts)]"
      using frame by (simp add: handle_except_snd)
    have r: "fst (handle_except ?dry) = Inr ()"
      using res by (cases ?dry) (simp add: handle_except_result)
    show ?thesis
      by (simp only: h finish_result c r)
  qed
  show "calls (snd (handle gh fs opts start)) =
         [GetClient, GetRepo (opt_repository opts), GetBranch (opt_base_branch opts), Close]"
    using frame by (simp add: h finish_fields handle_except_snd)
  have "stdout (snd (handle gh fs opts start)) = stdout (snd ?dry)"
    by (simp add: h finish_fields handle_except_snd)
  also have "stdout ?st3 = []" by (simp add: start_def)
  ultimately show "stdout (snd (handle gh fs opts start)) =
         [WARNING ''DRY RUN - No changes will be made'',
          Plain (''Repository: '' @ opt_repository opts),
          Plain (''Title: '' @ opt_title opts),
          Plain (''Body: '' @ opt_body opts),
          Plain (''Base branch: '' @ opt_base_branch opts),
          Plain (''Head branch: '' @ opt_head_branch opts),
          Plain (''Draft: '' @ show_bool (opt_draft opts))] @
         (if files \<noteq> [] then
            Plain ''Files to upload:'' #
            map (\<lambda>(l, r). Plain (''  '' @ l @ '' -> '' @ r @
              (case stat fs l of
                 Regular n \<Rightarrow> if n \<le> max_size then '' ('' @ show_nat n @ '' bytes)''
                              else '' (FILE NOT FOUND)''
               | _ \<Rightarrow> '' (FILE NOT FOUND)''))) files
          else []) @
         (if parse_list (opt_labels opts) \<noteq> [] then
            [Plain (''Labels: '' @ join '', '' (parse_list (opt_labels opts)))] else []) @
         (if parse_list (opt_assignees opts) \<noteq> [] then
            [Plain (''Assignees: '' @ join '', '' (parse_list (opt_assignees opts)))] else []) @
         (if parse_list (opt_reviewers opts) \<noteq> [] then
            [Plain (''Reviewers: '' @ join '', '' (parse_list (opt_reviewers opts)))] else [])"
    using frame by simp
qed

lemma split_on_Cons_case:
  "split_on sep (c # cs) =
     (case split_on sep cs of
        p # ps \<Rightarrow> if c = sep then [] # p # ps else (c # p) # ps
      | [] \<Rightarrow> [])"
  using split_on_not_Nil [of sep cs] by (cases "split_on sep cs") simp_all

theorem dry_run_makes_no_changes_witness:
  "filter mutating (calls (snd (handle (\<lambda>h c. Inr ''abc123'')
      \<lparr>stat = (\<lambda>p. if p = ''f.txt'' then Regular 12 else Absent), resolve = id,
       read_text = Decoded\<rparr>
      \<lparr>opt_repository = ''OWASP/Nest'', opt_title = ''Test PR'', opt_body = ''Test description'',
       opt_base_branch = ''main'', opt_head_branch = ''feature/test'',
       opt_files = Some ''f.txt:test.txt,gone.txt:x.txt'', opt_labels = Some ''bug'',
       opt_assignees = Some ''user1'', opt_reviewers = Some ''reviewer1'', opt_draft = True,
       opt_dry_run = True\<rparr> start))) = [] \<and>
   fst (handle (\<lambda>h c. Inr ''abc123'')
      \<lparr>stat = (\<lambda>p. if p = ''f.txt'' then Regular 12 else Absent), resolve = id,
       read_text = Decoded\<rparr>
      \<lparr>opt_repository = ''OWASP/Nest'', opt_title = ''Test PR'', opt_body = ''Test description'',
       opt_base_branch = ''main'', opt_head_branch = ''feature/test'',
       opt_files = Some ''f.txt:test.txt,gone.txt:x.txt'', opt_labels = Some ''bug'',
       opt_assignees = Some ''user1'', opt_reviewers = Some ''reviewer1'', opt_draft = True,
       opt_dry_run = True\<rparr> start) = Inr () \<and>
   stdout (snd (handle (\<lambda>h c. Inr ''abc123'')
      \<lparr>stat = (\<lambda>p. if p = ''f.txt'' then Regular 12 else Absent), resolve = id,
       read_text = Decoded\<rparr>
      \<lparr>opt_repository = ''OWASP/Nest'', opt_title = ''Test PR'', opt_body = ''Test description'',
       opt_base_branch = ''main'', opt_head_branch = ''feature/test'',
       opt_files = Some ''f.txt:test.txt,gone.txt:x.txt'', opt_labels = Some ''bug'',
       opt_assignees = Some ''user1'', opt_reviewers = Some ''reviewer1'', opt_draft = True,
       opt_dry_run = True\<rparr> start)) =
     [WARNING ''DRY RUN - No changes will be made'',
      Plain ''Repository: OWASP/Nest'',
      Plain ''Title: Test PR'',
      Plain ''Body: Test description'',
      Plain ''Base branch: main'',
      Plain ''Head branch: feature/test'',
      Plain ''Draft: True'',
      Plain ''Files to upload:'',
      Plain ''  f.txt -> test.txt (12 bytes)'',
      Plain ''  gone.txt -> x.txt (FILE NOT FOUND)'',
      Plain ''Labels: bug'',
      Plain ''Assignees: user1'',
      Plain ''Reviewers: reviewer1'']"
proof -
  let ?gh = "(\<lambda>h c. Inr ''abc123'') :: remote"
  let ?fs = "\<lparr>stat = (\<lambda>p. if p = ''f.txt'' then Regular 12 else Absent), resolve = id,
       read_text = Decoded\<rparr>"
  let ?opts = "\<lparr>opt_repository = ''OWASP/Nest'', opt_title = ''Test PR'',
       opt_body = ''Test description'',
       opt_base_branch = ''main'', opt_head_branch = ''feature/test'',
       opt_files = Some ''f.txt:test.txt,gone.txt:x.txt'', opt_labels = Some ''bug'',
       opt_assignees = Some ''user1'', opt_reviewers = Some ''reviewer1'', opt_draft = True,
       opt_dry_run = True\<rparr>"
  have d: "opt_dry_run ?opts" by simp
  have p: "parse_files (opt_files ?opts) start =
      (Inr [(''f.txt'', ''test.txt''), (''gone.txt'', ''x.txt'')], start)"
    by (simp add: parse_files_def strip_def is_space_def split_once_def split_on_Cons_case
        del: split_on.simps(2))
  have l: "parse_list (Some ''bug'') = [''bug'']"
    "parse_list (Some ''user1'') = [''user1'']"
    "parse_list (Some ''reviewer1'') = [''reviewer1'']"
    by (simp_all add: parse_list_def strip_def is_space_def split_on_Cons_case
        del: split_on.simps(2))
  have n: "show_nat 12 = ''12''" by (simp add: show_nat.simps)
  have valid: "CHR ''/'' \<in> set (opt_repository ?opts) \<and>
     ?gh [] GetClient = Inr ''abc123'' \<and>
     ?gh [GetClient] (GetRepo (opt_repository ?opts)) = Inr ''abc123'' \<and>
     ?gh [GetClient, GetRepo (opt_repository ?opts)] (GetBranch (opt_base_branch ?opts)) =
       Inr ''abc123'' \<and>
     parse_files (opt_files ?opts) start =
       (Inr [(''f.txt'', ''test.txt''), (''gone.txt'', ''x.txt'')], start)"
    using p by simp
  from dry_run_makes_no_changes [OF d, of ?gh ?fs "''abc123''" "''abc123''" "''abc123''"
      "[(''f.txt'', ''test.txt''), (''gone.txt'', ''x.txt'')]"] valid
  have "filter mutating (calls (snd (handle ?gh ?fs ?opts start))) = []"
    "fst (handle ?gh ?fs ?opts start) =
       (case ?gh [GetClient, GetRepo (opt_repository ?opts), GetBranch (opt_base_branch ?opts)]
               Close of
          Inl f \<Rightarrow> Inl (Raised f)
        | Inr u \<Rightarrow> Inr ())"
    "stdout (snd (handle ?gh ?fs ?opts start)) =
         [WARNING ''DRY RUN - No changes will be made'',
          Plain (''Repository: '' @ opt_repository ?opts),
          Plain (''Title: '' @ opt_title ?opts),
          Plain (''Body: '' @ opt_body ?opts),
          Plain (''Base branch: '' @ opt_base_branch ?opts),
          Plain (''Head branch: '' @ opt_head_branch ?opts),
          Plain (''Draft: '' @ show_bool (opt_draft ?opts))] @
         (if [(''f.txt'', ''test.txt''), (''gone.txt'', ''x.txt'')] \<noteq> [] then
            Plain ''Files to upload:'' #
            map (\<lambda>(l, r). Plain (''  '' @ l @ '' -> '' @ r @
              (case stat ?fs l of
                 Regular n \<Rightarrow> if n \<le> max_size then '' ('' @ show_nat n @ '' bytes)''
                              else '' (FILE NOT FOUND)''
               | _ \<Rightarrow> '' (FILE NOT FOUND)''))) [(''f.txt'', ''test.txt''), (''gone.txt'', ''x.txt'')]
          else []) @
         (if parse_list (opt_labels ?opts) \<noteq> [] then
            [Plain (''Labels: '' @ join '', '' (parse_list (opt_labels ?opts)))] else []) @
         (if parse_list (opt_assignees ?opts) \<noteq> [] then
            [Plain (''Assignees: '' @ join '', '' (parse_list (opt_assignees ?opts)))] else []) @
         (if parse_list (opt_reviewers ?opts) \<noteq> [] then
            [Plain (''Reviewers: '' @ join '', '' (parse_list (opt_reviewers ?opts)))] else [])"
    by blast+
  then show ?thesis
    by (simp add: l n show_bool_def max_size_def)
qed

subsection \<open>Output of a successful upload\<close>

lemma validate_file_path_quiet:
  "validate_file_path fs p st = (Inr x, st') \<Longrightarrow> stdout st' = stdout st \<and> stderr st' = stderr st"
  by (cases "stat fs p") (auto simp: validate_file_path_def Let_def split: if_splits)

lemma read_file_content_quiet:
  "read_file_content fs p st = (Inr x, st') \<Longrightarrow> stdout st' = stdout st \<and> stderr st' = stderr st"
  by (cases "read_text fs p") (auto simp: read_file_content_def)

lemma put_file_quiet:
  "put_file gh head remote_path content st = (r, st') \<Longrightarrow>
   stdout st' = stdout st \<and> stderr st' = stderr st"
  by (auto simp: put_file_def request_eq split: prod.splits sum.splits if_splits)

lemma upload_one_quiet:
  assumes "upload_one gh fs head l r st = (Inr u, st')"
  shows "stdout st' = stdout st \<and> stderr st' = stderr st"
proof -
  obtain res st1 where v: "validate_file_path fs l st = (res, st1)"
    by (cases "validate_file_path fs l st")
  show ?thesis
  proof (cases res)
    case (Inl e)
    with v assms show ?thesis by (cases e) (auto simp: upload_one_def split: if_splits)
  next
    case r1: (Inr path)
    with v have q1: "stdout st1 = stdout st \<and> stderr st1 = stderr st"
      by (simp add: validate_file_path_quiet)
    obtain res2 st2 where rd: "read_file_content fs l st1 = (res2, st2)"
      by (cases "read_file_content fs l st1")
    show ?thesis
    proof (cases res2)
      case (Inl e)
      with v r1 rd assms show ?thesis by (cases e) (auto simp: upload_one_def split: if_splits)
    next
      case (Inr content)
      with rd have q2: "stdout st2 = stdout st1 \<and> stderr st2 = stderr st1"
        by (simp add: read_file_content_quiet)
      obtain res3 st3 where p: "put_file gh head r content st2 = (res3, st3)"
        by (cases "put_file gh head r content st2")
      then have q3: "stdout st3 = stdout st2 \<and> stderr st3 = stderr st2"
        by (rule put_file_quiet)
      from v r1 rd Inr p assms have "st' = st3"
        by (auto simp: upload_one_def split: sum.splits exn.splits if_splits)
      with q1 q2 q3 show ?thesis by simp
    qed
  qed
qed

lemma upload_loop_quiet:
  "upload_loop gh fs head fm st = (Inr u, st') \<Longrightarrow>
   stdout st' = stdout st \<and> stderr st' = stderr st"
proof (induction fm arbitrary: st)
  case Nil
  then show ?case by simp
next
  case (Cons kv fm)
  obtain l r where kv: "kv = (l, r)" by (cases kv)
  obtain res st1 where one: "upload_one gh fs head l r st = (res, st1)"
    by (cases "upload_one gh fs head l r st")
  show ?case
  proof (cases res)
    case (Inl e)
    with one Cons.prems show ?thesis by (simp add: kv)
  next
    case (Inr v)
    with one have "stdout st1 = stdout st \<and> stderr st1 = stderr st"
      by (simp add: upload_one_quiet)
    moreover from one Inr Cons.prems have "upload_loop gh fs head fm st1 = (Inr u, st')"
      by (simp add: kv)
    ultimately show ?thesis using Cons.IH [of st1] by simp
  qed
qed

lemma upload_files_quiet:
  assumes "upload_files gh fs head fm st = (Inr u, st')"
  shows "stdout st' = stdout st \<and> stderr st' = stderr st"
proof (cases "gh (calls st) (GetBranch ''main'')")
  case (Inl f)
  with assms show ?thesis by (simp add: upload_files_def request_def split: if_splits)
next
  case (Inr sha)
  let ?st2 = "st\<lparr>calls := calls st @ [GetBranch ''main'',
    CreateGitRef (''refs/heads/'' @ head) sha]\<rparr>"
  obtain res st3 where loop: "upload_loop gh fs head fm ?st2 = (res, st3)"
    by (cases "upload_loop gh fs head fm ?st2")
  from assms Inr loop have "res = Inr u \<and> st' = st3"
    by (cases "gh (calls st @ [GetBranch ''main'']) (CreateGitRef (''refs/heads/'' @ head) sha)")
      (auto simp: upload_files_def request_def split: sum.splits exn.splits if_splits)
  with loop upload_loop_quiet [of gh fs head fm ?st2 u st3] show ?thesis by simp
qed

lemma upload_stage_quiet:
  assumes "(if fm \<noteq> [] then upload_files gh fs head fm st else (Inr (), st)) = (Inr (), st1)"
  shows "stdout st1 = stdout st \<and> stderr st1 = stderr st"
  using assms upload_files_quiet [of gh fs head fm st "()" st1] by (auto split: if_splits)

subsection \<open>The pull request call in the trace\<close>

lemma unique_split:
  assumes "xs @ c # ys = A @ c' # R" "P c" "P c'" "\<forall>x\<in>set A. \<not> P x" "\<forall>x\<in>set R. \<not> P x"
  shows "xs = A \<and> c = c' \<and> ys = R"
  using assms
proof (induction A arbitrary: xs)
  case Nil
  then show ?case by (cases xs) auto
next
  case (Cons a A)
  then show ?case by (cases xs) auto
qed

lemma publishing_call:
  "is_GetBranch c \<or> is_CreateGitRef c \<or> is_GetContents c \<or> is_UpdateFile c \<or> is_CreateFile c \<Longrightarrow>
   \<not> is_CreatePull c \<and> \<not> enrichment c \<and> c \<noteq> Close"
  by (cases c) auto

lemma enrichment_call: "enrichment c \<Longrightarrow> \<not> is_CreatePull c \<and> \<not> is_CreateGitRef c \<and> c \<noteq> Close"
  by (cases c) auto

lemma mutating_CreatePull: "is_CreatePull c \<Longrightarrow> mutating c"
  by (cases c) auto

lemma after_pull_calls:
  "\<exists>E. calls (snd (case create_pull_request gh t b bb hb d st1 of
        (Inl e, st2) \<Rightarrow> (Inl e, st2)
      | (Inr pr, st2) \<Rightarrow> enrich gh pr labels assignees reviewers st2)) =
     calls st1 @ CreatePull t b bb hb d # E \<and> (\<forall>c\<in>set E. enrichment c)"
proof (cases "gh (calls st1) (CreatePull t b bb hb d)")
  case (Inl f)
  then show ?thesis by (simp add: create_pull_request_def request_def)
next
  case (Inr pr)
  from enrich_calls [of gh pr labels assignees reviewers
      "st1\<lparr>calls := calls st1 @ [CreatePull t b bb hb d]\<rparr>"]
  show ?thesis using Inr by (auto simp: create_pull_request_def request_def)
qed

lemma reaches_pull:
  assumes "calls (snd (handle gh fs opts start)) = pre @ CreatePull t b bb hb d # post"
  obtains st1 where
    "calls st1 = pre" "stdout st1 = []" "stderr st1 = []"
    "\<forall>c\<in>set pre. \<not> enrichment c"
    "CreatePull t b bb hb d = CreatePull (opt_title opts) (opt_body opts) (opt_base_branch opts)
       (opt_head_branch opts) (opt_draft opts)"
    "handle gh fs opts start =
       handle_finally gh (handle_except
         (case create_pull_request gh t b bb hb d st1 of
            (Inl e, st2) \<Rightarrow> (Inl e, st2)
          | (Inr pr, st2) \<Rightarrow>
              enrich gh pr (parse_list (opt_labels opts)) (parse_list (opt_assignees opts))
                (parse_list (opt_reviewers opts)) st2))"
proof (cases rule: handle_cases [where gh = gh and fs = fs and opts = opts])
  case idle
  have "CreatePull t b bb hb d \<in> set (calls (snd (handle gh fs opts start)))"
    by (simp only: assms) simp
  with idle(1) have False by fastforce
  then show ?thesis ..
next
  case (dry fm)
  let ?st3 = "start\<lparr>calls := [GetClient, GetRepo (opt_repository opts),
               GetBranch (opt_base_branch opts)]\<rparr>"
  have "calls (snd (handle gh fs opts start)) =
      [GetClient, GetRepo (opt_repository opts), GetBranch (opt_base_branch opts), Close]"
    using show_dry_run_frame [of fs "opt_repository opts" "opt_title opts" "opt_body opts"
        "opt_base_branch opts" "opt_head_branch opts" fm "parse_list (opt_labels opts)"
        "parse_list (opt_assignees opts)" "parse_list (opt_reviewers opts)" "opt_draft opts" ?st3]
    by (simp add: dry(7) finish_fields handle_except_snd)
  with assms have "pre @ CreatePull t b bb hb d # post =
      [GetClient, GetRepo (opt_repository opts), GetBranch (opt_base_branch opts), Close]"
    by simp
  then have "CreatePull t b bb hb d \<in> set [GetClient, GetRepo (opt_repository opts),
               GetBranch (opt_base_branch opts), Close]"
    by (metis in_set_conv_decomp)
  then have False by simp
  then show ?thesis ..
next
  case (delivering fm)
  let ?st3 = "start\<lparr>calls := [GetClient, GetRepo (opt_repository opts),
               GetBranch (opt_base_branch opts)]\<rparr>"
  let ?cp = "CreatePull (opt_title opts) (opt_body opts) (opt_base_branch opts)
       (opt_head_branch opts) (opt_draft opts)"
  let ?ls = "parse_list (opt_labels opts)"
  let ?as = "parse_list (opt_assignees opts)"
  let ?rs = "parse_list (opt_reviewers opts)"
  have fin: "calls (snd (handle gh fs opts start)) =
      calls (snd (deliver gh fs opts fm ?ls ?as ?rs ?st3)) @ [Close]"
    by (simp add: delivering(7) finish_fields handle_except_snd)
  obtain r1 st1 where up:
    "(if fm \<noteq> [] then upload_files gh fs (opt_head_branch opts) fm ?st3 else (Inr (), ?st3)) =
       (r1, st1)"
    by (cases "if fm \<noteq> [] then upload_files gh fs (opt_head_branch opts) fm ?st3
        else (Inr (), ?st3)")
  from upload_stage_calls [OF up] obtain U where
    U: "calls st1 = calls ?st3 @ U"
      "\<forall>c\<in>set U. is_GetBranch c \<or> is_CreateGitRef c \<or> is_GetContents c \<or> is_UpdateFile c \<or>
        is_CreateFile c"
    by blast
  have pre_ok: "\<forall>c\<in>set (calls st1). \<not> is_CreatePull c \<and> \<not> enrichment c \<and> c \<noteq> Close"
  proof
    fix c assume "c \<in> set (calls st1)"
    then have "c \<in> {GetClient, GetRepo (opt_repository opts), GetBranch (opt_base_branch opts)} \<or>
        c \<in> set U" by (auto simp: U(1))
    then show "\<not> is_CreatePull c \<and> \<not> enrichment c \<and> c \<noteq> Close"
      using U(2) publishing_call [of c] by auto
  qed
  show ?thesis
  proof (cases r1)
    case (Inl e)
    with up have "deliver gh fs opts fm ?ls ?as ?rs ?st3 = (Inl e, st1)"
      by (simp add: deliver_def)
    with fin assms have "pre @ CreatePull t b bb hb d # post = calls st1 @ [Close]" by simp
    then have "CreatePull t b bb hb d \<in> set (calls st1 @ [Close])"
      by (metis in_set_conv_decomp)
    with pre_ok have False by auto
    then show ?thesis ..
  next
    case (Inr u)
    let ?rest = "case create_pull_request gh (opt_title opts) (opt_body opts)
          (opt_base_branch opts) (opt_head_branch opts) (opt_draft opts) st1 of
            (Inl e, st2) \<Rightarrow> (Inl e, st2)
          | (Inr pr, st2) \<Rightarrow> enrich gh pr ?ls ?as ?rs st2"
    from up Inr have del: "deliver gh fs opts fm ?ls ?as ?rs ?st3 = ?rest"
      by (simp add: deliver_def)
    from after_pull_calls [where gh = gh and t = "opt_title opts" and b = "opt_body opts"
        and bb = "opt_base_branch opts" and hb = "opt_head_branch opts" and d = "opt_draft opts"
        and ?st1.0 = st1 and labels = ?ls and assignees = ?as and reviewers = ?rs]
    obtain E where E: "calls (snd ?rest) = calls st1 @ ?cp # E" "\<forall>c\<in>set E. enrichment c"
      by blast
    from fin del E assms have eq: "pre @ CreatePull t b bb hb d # post = calls st1 @ ?cp # (E @ [Close])"
      by simp
    have "\<forall>x\<in>set (E @ [Close]). \<not> is_CreatePull x"
      using E(2) enrichment_call by auto
    with unique_split [OF eq, of is_CreatePull] pre_ok
    have u: "pre = calls st1" "CreatePull t b bb hb d = ?cp" by auto
    from up Inr have q: "stdout st1 = stdout ?st3 \<and> stderr st1 = stderr ?st3"
      by (intro upload_stage_quiet [of fm gh fs "opt_head_branch opts" ?st3 st1]) simp
    show ?thesis
    proof (rule that [of st1])
      show "calls st1 = pre" using u by simp
      show "stdout st1 = []" "stderr st1 = []" using q by (simp_all add: start_def)
      show "\<forall>c\<in>set pre. \<not> enrichment c" using pre_ok u by simp
      show "CreatePull t b bb hb d = ?cp" by (rule u(2))
      show "handle gh fs opts start =
       handle_finally gh (handle_except
         (case create_pull_request gh t b bb hb d st1 of
            (Inl e, st2) \<Rightarrow> (Inl e, st2)
          | (Inr pr, st2) \<Rightarrow> enrich gh pr ?ls ?as ?rs st2))"
        using u(2) by (simp add: delivering(7) del)
    qed
  qed
qed

lemma handle_except_keeps_stderr:
  "set (stderr st) \<subseteq> set (stderr (snd (handle_except (r, st))))"
  by (auto simp: handle_except_def split: sum.splits exn.splits fault.splits)

text \<open>
  Claim C7. When the call that creates the pull request is made and raises a GitHub
  fault, the run ends there: the failure is reported on the error stream, the only call
  that follows is the release of the client, no label, assignee or reviewer addition is
  made anywhere in the run, and the exit status is 1.
\<close>

theorem pull_request_failure_aborts:
  assumes "calls (snd (handle gh fs opts start)) = pre @ CreatePull t b bb hb d # post"
    and "gh pre (CreatePull t b bb hb d) = Inl f"
    and "is_github f"
  shows "exit_status (fst (handle gh fs opts start)) = 1 \<and>
    post = [Close] \<and>
    filter enrichment (calls (snd (handle gh fs opts start))) = [] \<and>
    ERROR (''Failed to create Pull Request: '' @ str f) \<in>
      set (stderr (snd (handle gh fs opts start)))"
proof -
  from assms(1) obtain st1 where
    st1: "calls st1 = pre" "\<forall>c\<in>set pre. \<not> enrichment c"
    and h: "handle gh fs opts start =
       handle_finally gh (handle_except
         (case create_pull_request gh t b bb hb d st1 of
            (Inl e, st2) \<Rightarrow> (Inl e, st2)
          | (Inr pr, st2) \<Rightarrow>
              enrich gh pr (parse_list (opt_labels opts)) (parse_list (opt_assignees opts))
                (parse_list (opt_reviewers opts)) st2))"
    by (rule reaches_pull [where gh = gh and fs = fs and opts = opts])
  let ?st2 = "write_err (ERROR (''Failed to create Pull Request: '' @ str f))
    (st1\<lparr>calls := pre @ [CreatePull t b bb hb d]\<rparr>)"
  have cp: "create_pull_request gh t b bb hb d st1 = (Inl (Raised f), ?st2)"
    using assms(2,3) st1(1) by (simp add: create_pull_request_def request_def)
  have h': "handle gh fs opts start = handle_finally gh (handle_except (Inl (Raised f), ?st2))"
    by (simp add: h cp)
  have ex: "exit_status (fst (handle_except (Inl (Raised f), ?st2))) = 1"
    by (simp add: handle_except_result)
  have 1: "exit_status (fst (handle gh fs opts start)) = 1"
    unfolding h' using ex by (rule finish_exit)
  have calls: "calls (snd (handle gh fs opts start)) = pre @ [CreatePull t b bb hb d, Close]"
    by (simp add: h' finish_fields)
  with assms(1) have 2: "post = [Close]" by simp
  have 3: "filter enrichment (calls (snd (handle gh fs opts start))) = []"
    using st1(2) by (simp add: calls filter_empty_conv)
  have "ERROR (''Failed to create Pull Request: '' @ str f) \<in> set (stderr ?st2)" by simp
  with handle_except_keeps_stderr [of ?st2 "Inl (Raised f)"]
  have 4: "ERROR (''Failed to create Pull Request: '' @ str f) \<in>
      set (stderr (snd (handle gh fs opts start)))"
    by (auto simp: h' finish_fields)
  from 1 2 3 4 show ?thesis by simp
qed


theorem pull_request_failure_aborts_witness:
  "exit_status (fst (handle
      (\<lambda>h c. case c of CreatePull t b bb hb d \<Rightarrow> Inl (GithubException ''422 Validation failed'')
                | _ \<Rightarrow> Inr ''abc123'')
      \<lparr>stat = (\<lambda>p. Absent), resolve = id, read_text = Decoded\<rparr>
      \<lparr>opt_repository = ''OWASP/Nest'', opt_title = ''Test PR'', opt_body = ''Test description'',
       opt_base_branch = ''main'', opt_head_branch = ''feature/test'', opt_files = None,
       opt_labels = Some ''bug'', opt_assignees = None, opt_reviewers = None, opt_draft = False,
       opt_dry_run = False\<rparr> start)) = 1 \<and>
   filter enrichment (calls (snd (handle
      (\<lambda>h c. case c of CreatePull t b bb hb d \<Rightarrow> Inl (GithubException ''422 Validation failed'')
                | _ \<Rightarrow> Inr ''abc123'')
      \<lparr>stat = (\<lambda>p. Absent), resolve = id, read_text = Decoded\<rparr>
      \<lparr>opt_repository = ''OWASP/Nest'', opt_title = ''Test PR'', opt_body = ''Test description'',
       opt_base_branch = ''main'', opt_head_branch = ''feature/test'', opt_files = None,
       opt_labels = Some ''bug'', opt_assignees = None, opt_reviewers = None, opt_draft = False,
       opt_dry_run = False\<rparr> start))) = []"
proof -
  let ?gh = "(\<lambda>h c. case c of
      CreatePull t b bb hb d \<Rightarrow> Inl (GithubException ''422 Validation failed'')
    | _ \<Rightarrow> Inr ''abc123'') :: remote"
  let ?fs = "\<lparr>stat = (\<lambda>p. Absent), resolve = id, read_text = Decoded\<rparr>"
  let ?opts = "\<lparr>opt_repository = ''OWASP/Nest'', opt_title = ''Test PR'',
       opt_body = ''Test description'',
       opt_base_branch = ''main'', opt_head_branch = ''feature/test'', opt_files = None,
       opt_labels = Some ''bug'', opt_assignees = None, opt_reviewers = None, opt_draft = False,
       opt_dry_run = False\<rparr>"
  have run: "calls (snd (handle ?gh ?fs ?opts start)) =
      [GetClient, GetRepo ''OWASP/Nest'', GetBranch ''main''] @
      CreatePull ''Test PR'' ''Test description'' ''main'' ''feature/test'' False # [Close]"
    by (simp add: handle_def handle_body_def deliver_def create_pull_request_def
        handle_except_def handle_finally_def request_def start_def parse_files_def)
  have ans: "?gh [GetClient, GetRepo ''OWASP/Nest'', GetBranch ''main'']
      (CreatePull ''Test PR'' ''Test description'' ''main'' ''feature/test'' False) =
      Inl (GithubException ''422 Validation failed'')"
    by simp
  have gf: "is_github (GithubException ''422 Validation failed'')" by simp
  from pull_request_failure_aborts [OF run ans gf] show ?thesis by simp
qed


subsection \<open>Write calls of the upload loop\<close>

lemma put_file_counts:
  "\<exists>ext. calls (snd (put_file gh head remote_path content st)) = calls st @ ext \<and>
     length (filter is_GetContents ext) \<le> 1 \<and> length (filter is_UpdateFile ext) \<le> 1 \<and>
     length (filter is_CreateFile ext) \<le> 1"
  by (auto simp: put_file_def request_eq split: prod.splits sum.splits)

lemma upload_one_counts:
  "\<exists>ext. calls (snd (upload_one gh fs head l r st)) = calls st @ ext \<and>
     length (filter is_GetContents ext) \<le> 1 \<and> length (filter is_UpdateFile ext) \<le> 1 \<and>
     length (filter is_CreateFile ext) \<le> 1"
proof -
  obtain res st1 where v: "validate_file_path fs l st = (res, st1)"
    by (cases "validate_file_path fs l st")
  then have c1: "calls st1 = calls st" by (rule validate_file_path_callsD)
  obtain res2 st2 where rd: "read_file_content fs l st1 = (res2, st2)"
    by (cases "read_file_content fs l st1")
  then have c2: "calls st2 = calls st" using c1 by (simp add: read_file_content_callsD)
  show ?thesis
  proof (cases res)
    case (Inl e)
    with v c1 show ?thesis by (cases e) (auto simp: upload_one_def)
  next
    case r1: (Inr path)
    show ?thesis
    proof (cases res2)
      case (Inl e)
      with v rd r1 c2 show ?thesis by (cases e) (auto simp: upload_one_def)
    next
      case (Inr content)
      obtain res3 st3 where p: "put_file gh head r content st2 = (res3, st3)"
        by (cases "put_file gh head r content st2")
      with put_file_counts [of gh head r content st2] c2 obtain ext where
        "calls st3 = calls st @ ext" "length (filter is_GetContents ext) \<le> 1"
        "length (filter is_UpdateFile ext) \<le> 1" "length (filter is_CreateFile ext) \<le> 1"
        by auto
      with v rd r1 Inr p show ?thesis
        by (auto simp: upload_one_def split: sum.splits exn.splits)
    qed
  qed
qed

lemma upload_loop_counts:
  "\<exists>ext. calls (snd (upload_loop gh fs head fm st)) = calls st @ ext \<and>
     length (filter is_GetContents ext) \<le> length fm \<and>
     length (filter is_UpdateFile ext) \<le> length fm \<and>
     length (filter is_CreateFile ext) \<le> length fm"
proof (induction fm arbitrary: st)
  case Nil
  then show ?case by simp
next
  case (Cons kv fm)
  obtain l r where kv: "kv = (l, r)" by (cases kv)
  obtain res st1 where one: "upload_one gh fs head l r st = (res, st1)"
    by (cases "upload_one gh fs head l r st")
  with upload_one_counts [of gh fs head l r st] obtain ext1 where
    e1: "calls st1 = calls st @ ext1" "length (filter is_GetContents ext1) \<le> 1"
      "length (filter is_UpdateFile ext1) \<le> 1" "length (filter is_CreateFile ext1) \<le> 1"
    by auto
  show ?case
  proof (cases res)
    case (Inl e)
    with one e1 show ?thesis by (intro exI [of _ ext1]) (simp add: kv)
  next
    case (Inr u)
    from Cons.IH [of st1] obtain ext2 where
      e2: "calls (snd (upload_loop gh fs head fm st1)) = calls st1 @ ext2"
        "length (filter is_GetContents ext2) \<le> length fm"
        "length (filter is_UpdateFile ext2) \<le> length fm"
        "length (filter is_CreateFile ext2) \<le> length fm"
      by blast
    with one e1 Inr show ?thesis
      by (intro exI [of _ "ext1 @ ext2"]) (simp add: kv)
  qed
qed

lemma upload_files_counts:
  "\<exists>ext. calls (snd (upload_files gh fs head fm st)) = calls st @ ext \<and>
     length (filter is_GetContents ext) \<le> length fm \<and>
     length (filter is_UpdateFile ext) \<le> length fm \<and>
     length (filter is_CreateFile ext) \<le> length fm"
proof (cases "gh (calls st) (GetBranch ''main'')")
  case (Inl f)
  then have "calls (snd (upload_files gh fs head fm st)) = calls st @ [GetBranch ''main'']"
    by (simp add: upload_files_def request_def)
  then show ?thesis by simp
next
  case (Inr sha)
  let ?c = "CreateGitRef (''refs/heads/'' @ head) sha"
  let ?st2 = "st\<lparr>calls := calls st @ [GetBranch ''main'', ?c]\<rparr>"
  from upload_loop_counts [of gh fs head fm ?st2] obtain ext where
    e: "calls (snd (upload_loop gh fs head fm ?st2)) = calls st @ GetBranch ''main'' # ?c # ext"
      "length (filter is_GetContents ext) \<le> length fm"
      "length (filter is_UpdateFile ext) \<le> length fm"
      "length (filter is_CreateFile ext) \<le> length fm"
    by auto
  have "calls (snd (upload_files gh fs head fm st)) = calls st @ [GetBranch ''main'', ?c] \<or>
      calls (snd (upload_files gh fs head fm st)) = calls (snd (upload_loop gh fs head fm ?st2))"
    using Inr
    by (cases "gh (calls st @ [GetBranch ''main'']) ?c")
      (auto simp: upload_files_def request_def split: prod.splits sum.splits exn.splits)
  then show ?thesis
  proof
    assume "calls (snd (upload_files gh fs head fm st)) = calls st @ [GetBranch ''main'', ?c]"
    then show ?thesis by simp
  next
    assume "calls (snd (upload_files gh fs head fm st)) =
        calls (snd (upload_loop gh fs head fm ?st2))"
    with e show ?thesis by (intro exI [of _ "GetBranch ''main'' # ?c # ext"]) simp
  qed
qed

text \<open>
  Claim C9, as amended. For a string of well-formed pairs in which local paths may
  repeat, the mapping returned has one entry for each local path, the remote path of an
  entry is that of the last pair with this local path, and the size is the number of
  distinct local paths. \<^verbatim>\<open>_upload_files\<close> on this mapping makes at most one pass of its loop
  for each distinct local path: each local path is handed to the validation at most
  once, and the calls of the run hold at most as many existence checks, at most as many
  \<^verbatim>\<open>update_file\<close> calls and at most as many \<^verbatim>\<open>create_file\<close> calls as the mapping has entries.
\<close>

theorem parse_files_last_pair_wins:
  assumes "ps \<noteq> []"
    and "\<forall>(l, r)\<in>set ps. CHR '':'' \<notin> set l \<and> CHR '','' \<notin> set l \<and> CHR '','' \<notin> set r \<and>
           strip l \<noteq> [] \<and> strip r \<noteq> []"
  shows "\<exists>fm. parse_files (Some (join '','' (map (\<lambda>(l, r). l @ CHR '':'' # r) ps))) st = (Inr fm, st) \<and>
           distinct (map fst fm) \<and>
           (\<forall>pre l r post. ps = pre @ (l, r) # post \<and> strip l \<notin> (\<lambda>(l, r). strip l) ` set post \<longrightarrow>
              map_of fm (strip l) = Some (strip r)) \<and>
           length fm = card ((\<lambda>(l, r). strip l) ` set ps) \<and>
           (\<forall>gh fs head st'. \<exists>seen ext.
              checked (snd (upload_files gh fs head fm st')) = checked st' @ seen \<and>
              set seen \<subseteq> fst ` set fm \<and> distinct seen \<and>
              calls (snd (upload_files gh fs head fm st')) = calls st' @ ext \<and>
              length (filter is_GetContents ext) \<le> length fm \<and>
              length (filter is_UpdateFile ext) \<le> length fm \<and>
              length (filter is_CreateFile ext) \<le> length fm)"
proof -
  let ?kvs = "map (\<lambda>(l, r). (strip l, strip r)) ps"
  let ?fm = "fold (\<lambda>(k, v). AList.update k v) ?kvs []"
  have keys: "fst ` set ?kvs = (\<lambda>(l, r). strip l) ` set ps"
    by (force simp: image_iff)
  have res: "parse_files (Some (join '','' (map (\<lambda>(l, r). l @ CHR '':'' # r) ps))) st = (Inr ?fm, st)"
    by (rule parse_files_well_formed [OF assms])
  have dist: "distinct (map fst ?fm)"
    by (rule fold_update_distinct) simp
  have last: "map_of ?fm (strip l) = Some (strip r)"
    if "ps = pre @ (l, r) # post" "strip l \<notin> (\<lambda>(l, r). strip l) ` set post" for pre l r post
  proof -
    let ?post = "map (\<lambda>(l, r). (strip l, strip r)) post"
    have dec: "?kvs = map (\<lambda>(l, r). (strip l, strip r)) pre @ (strip l, strip r) # ?post"
      using that(1) by simp
    have fresh: "strip l \<notin> fst ` set ?post"
      using that(2) by (force simp: image_iff)
    have "map_of (rev ?kvs) (strip l) = Some (strip r)"
      unfolding dec by (rule map_of_rev_last [OF fresh])
    moreover have "map_of ?fm = map_of (rev ?kvs)"
      by (simp only: fold_update_map_of map_of.simps empty_map_add)
    ultimately show ?thesis by (simp only:)
  qed
  have len: "length ?fm = card ((\<lambda>(l, r). strip l) ` set ps)"
    by (simp only: fold_update_length keys)
  have up: "\<exists>seen ext. checked (snd (upload_files gh fs head ?fm st')) = checked st' @ seen \<and>
              set seen \<subseteq> fst ` set ?fm \<and> distinct seen \<and>
              calls (snd (upload_files gh fs head ?fm st')) = calls st' @ ext \<and>
              length (filter is_GetContents ext) \<le> length ?fm \<and>
              length (filter is_UpdateFile ext) \<le> length ?fm \<and>
              length (filter is_CreateFile ext) \<le> length ?fm" for gh fs head st'
  proof -
    from upload_files_counts [of gh fs head ?fm st'] obtain ext where
      e: "calls (snd (upload_files gh fs head ?fm st')) = calls st' @ ext"
        "length (filter is_GetContents ext) \<le> length ?fm"
        "length (filter is_UpdateFile ext) \<le> length ?fm"
        "length (filter is_CreateFile ext) \<le> length ?fm"
      by blast
    obtain seen where s: "checked (snd (upload_files gh fs head ?fm st')) = checked st' @ seen"
      "prefix seen (map fst ?fm)"
      using upload_files_checked [of gh fs head ?fm st'] by blast
    from s(2) have "set seen \<subseteq> fst ` set ?fm" using set_mono_prefix by fastforce
    moreover from s(2) dist have "distinct seen"
      by (auto simp: prefix_def)
    ultimately show ?thesis using s(1) e by blast
  qed
  from res dist last len up show ?thesis by blast
qed


theorem parse_files_last_pair_wins_witness:
  "\<exists>fm. parse_files (Some ''a:b,c:d,a:z'') start = (Inr fm, start) \<and>
     map_of fm ''a'' = Some ''z'' \<and> length fm = 2 \<and>
     distinct (checked (snd (upload_files (\<lambda>h c. Inr ''abc123'')
        \<lparr>stat = (\<lambda>p. Regular 1), resolve = id, read_text = Decoded\<rparr> ''feature'' fm start))) \<and>
     length (filter is_UpdateFile (calls (snd (upload_files (\<lambda>h c. Inr ''abc123'')
        \<lparr>stat = (\<lambda>p. Regular 1), resolve = id, read_text = Decoded\<rparr> ''feature'' fm start)))) \<le> 2 \<and>
     length (filter is_CreateFile (calls (snd (upload_files (\<lambda>h c. Inr ''abc123'')
        \<lparr>stat = (\<lambda>p. Regular 1), resolve = id, read_text = Decoded\<rparr> ''feature'' fm start)))) \<le> 2"
proof -
  let ?ps = "[(''a'', ''b''), (''c'', ''d''), (''a'', ''z'')]"
  let ?gh = "(\<lambda>h c. Inr ''abc123'') :: remote"
  let ?fs = "\<lparr>stat = (\<lambda>p. Regular 1), resolve = id, read_text = Decoded\<rparr>"
  have strips: "strip ''a'' = ''a''" "strip ''b'' = ''b''" "strip ''c'' = ''c''"
    "strip ''d'' = ''d''" "strip ''z'' = ''z''"
    by (simp_all add: strip_def is_space_def)
  have h1: "?ps \<noteq> []" by simp
  have h2: "\<forall>(l, r)\<in>set ?ps. CHR '':'' \<notin> set l \<and> CHR '','' \<notin> set l \<and> CHR '','' \<notin> set r \<and>
           strip l \<noteq> [] \<and> strip r \<noteq> []"
    by (simp add: strips)
  have input: "join '','' (map (\<lambda>(l, r). l @ CHR '':'' # r) ?ps) = ''a:b,c:d,a:z''"
    by simp
  have keys: "(\<lambda>(l, r). strip l) ` set ?ps = {''a'', ''c''}"
    by (auto simp: strips)
  have dec: "?ps = [(''a'', ''b''), (''c'', ''d'')] @ (''a'', ''z'') # [] \<and>
      strip ''a'' \<notin> (\<lambda>(l, r). strip l) ` set []"
    by simp
  note inst = parse_files_last_pair_wins [OF h1 h2, of start, unfolded input]
  from inst show ?thesis
  proof (elim exE conjE)
    fix fm
    assume fm: "parse_files (Some ''a:b,c:d,a:z'') start = (Inr fm, start)"
      and last: "\<forall>pre l r post. ?ps = pre @ (l, r) # post \<and> strip l \<notin> (\<lambda>(l, r). strip l) ` set post \<longrightarrow>
              map_of fm (strip l) = Some (strip r)"
      and len: "length fm = card ((\<lambda>(l, r). strip l) ` set ?ps)"
      and up: "\<forall>gh fs head st'. \<exists>seen ext.
              checked (snd (upload_files gh fs head fm st')) = checked st' @ seen \<and>
              set seen \<subseteq> fst ` set fm \<and> distinct seen \<and>
              calls (snd (upload_files gh fs head fm st')) = calls st' @ ext \<and>
              length (filter is_GetContents ext) \<le> length fm \<and>
              length (filter is_UpdateFile ext) \<le> length fm \<and>
              length (filter is_CreateFile ext) \<le> length fm"
    from last [rule_format, OF dec] have 2: "map_of fm ''a'' = Some ''z''"
      by (simp only: strips)
    from len have 3: "length fm = 2" by (simp only: keys) simp
    from up [rule_format, of ?gh ?fs "''feature''" start] obtain seen ext where
      s: "checked (snd (upload_files ?gh ?fs ''feature'' fm start)) = checked start @ seen"
        "distinct seen"
        "calls (snd (upload_files ?gh ?fs ''feature'' fm start)) = calls start @ ext"
        "length (filter is_UpdateFile ext) \<le> length fm"
        "length (filter is_CreateFile ext) \<le> length fm"
      by (elim exE conjE)
    from s(1,2) have 4: "distinct (checked (snd (upload_files ?gh ?fs ''feature'' fm start)))"
      by (simp add: start_def)
    from s(3,4) 3 have 5: "length (filter is_UpdateFile
        (calls (snd (upload_files ?gh ?fs ''feature'' fm start)))) \<le> 2"
      by (simp add: start_def)
    from s(3,5) 3 have 6: "length (filter is_CreateFile
        (calls (snd (upload_files ?gh ?fs ''feature'' fm start)))) \<le> 2"
      by (simp add: start_def)
    from fm 2 3 4 5 6 show ?thesis by (intro exI [of _ fm] conjI)
  qed
qed

text \<open>
  The claim as stated fails on write calls: the mapping of \<open>a:b\<close> has one local path, and
  when the remote file exists and \<^verbatim>\<open>update_file\<close> raises a GitHub fault, the same pass goes
  on to \<^verbatim>\<open>create_file\<close>: two uploads are attempted for the one local path.
\<close>

theorem upload_update_then_create_counterexample:
  "fst (parse_files (Some ''a:b'') start) = Inr [(''a'', ''b'')] \<and>
   filter mutating (calls (snd (upload_files
      (\<lambda>h c. case c of
         UpdateFile path message content sha branch \<Rightarrow> Inl (GithubException ''409 Conflict'')
       | _ \<Rightarrow> Inr ''abc123'')
      \<lparr>stat = (\<lambda>p. Regular 11), resolve = id, read_text = (\<lambda>p. Decoded ''Hello World'')\<rparr>
      ''feature/test'' [(''a'', ''b'')] start))) =
     [CreateGitRef ''refs/heads/feature/test'' ''abc123'',
      UpdateFile ''b'' ''Update b'' ''Hello World'' ''abc123'' ''feature/test'',
      CreateFile ''b'' ''Create b'' ''Hello World'' ''feature/test'']"
  by (simp add: parse_files_def strip_def is_space_def split_once_def upload_files_def
      upload_one_def put_file_def validate_file_path_def read_file_content_def request_def
      start_def max_size_def Let_def)

subsection \<open>The branch creation call in the trace\<close>

lemma publishing_no_ref:
  "is_GetContents c \<or> is_UpdateFile c \<or> is_CreateFile c \<Longrightarrow> \<not> is_CreateGitRef c \<and> c \<noteq> Close"
  by (cases c) auto

lemma pull_no_ref: "is_CreatePull c \<Longrightarrow> \<not> is_CreateGitRef c"
  by (cases c) auto

lemma mutating_CreateGitRef: "is_CreateGitRef c \<Longrightarrow> mutating c"
  by (cases c) auto

lemma deliver_after_upload:
  assumes "fm \<noteq> []"
  shows "\<exists>T. calls (snd (deliver gh fs opts fm labels assignees reviewers st)) =
      calls (snd (upload_files gh fs (opt_head_branch opts) fm st)) @ T \<and>
      (\<forall>c\<in>set T. \<not> is_CreateGitRef c \<and> c \<noteq> Close)"
proof -
  obtain r1 st1 where up: "upload_files gh fs (opt_head_branch opts) fm st = (r1, st1)"
    by (cases "upload_files gh fs (opt_head_branch opts) fm st")
  show ?thesis
  proof (cases r1)
    case (Inl e)
    with up assms have "deliver gh fs opts fm labels assignees reviewers st = (Inl e, st1)"
      by (simp add: deliver_def)
    with up show ?thesis by simp
  next
    case (Inr u)
    let ?rest = "case create_pull_request gh (opt_title opts) (opt_body opts)
          (opt_base_branch opts) (opt_head_branch opts) (opt_draft opts) st1 of
            (Inl e, st2) \<Rightarrow> (Inl e, st2)
          | (Inr pr, st2) \<Rightarrow> enrich gh pr labels assignees reviewers st2"
    from up Inr assms have del: "deliver gh fs opts fm labels assignees reviewers st = ?rest"
      by (simp add: deliver_def)
    from after_pull_calls [where gh = gh and t = "opt_title opts" and b = "opt_body opts"
        and bb = "opt_base_branch opts" and hb = "opt_head_branch opts" and d = "opt_draft opts"
        and ?st1.0 = st1 and labels = labels and assignees = assignees and reviewers = reviewers]
    obtain E where E: "calls (snd ?rest) =
        calls st1 @ CreatePull (opt_title opts) (opt_body opts) (opt_base_branch opts)
          (opt_head_branch opts) (opt_draft opts) # E" "\<forall>c\<in>set E. enrichment c"
      by blast
    have "\<forall>c\<in>set (CreatePull (opt_title opts) (opt_body opts) (opt_base_branch opts)
          (opt_head_branch opts) (opt_draft opts) # E). \<not> is_CreateGitRef c \<and> c \<noteq> Close"
      using E(2) enrichment_call by auto
    with del E(1) up show ?thesis by auto
  qed
qed

lemma reaches_ref:
  assumes "calls (snd (handle gh fs opts start)) = pre @ CreateGitRef ref sha # post"
  obtains fm where
    "fm \<noteq> []" "\<not> opt_dry_run opts"
    "CHR ''/'' \<in> set (opt_repository opts)"
    "\<exists>x. gh [] GetClient = Inr x"
    "\<exists>x. gh [GetClient] (GetRepo (opt_repository opts)) = Inr x"
    "\<exists>x. gh [GetClient, GetRepo (opt_repository opts)] (GetBranch (opt_base_branch opts)) = Inr x"
    "parse_files (opt_files opts) start = (Inr fm, start)"
    "pre = [GetClient, GetRepo (opt_repository opts), GetBranch (opt_base_branch opts),
       GetBranch ''main'']"
    "gh [GetClient, GetRepo (opt_repository opts), GetBranch (opt_base_branch opts)]
       (GetBranch ''main'') = Inr sha"
    "ref = ''refs/heads/'' @ opt_head_branch opts"
    "handle gh fs opts start =
       handle_finally gh (handle_except
         (deliver gh fs opts fm (parse_list (opt_labels opts)) (parse_list (opt_assignees opts))
            (parse_list (opt_reviewers opts))
            (start\<lparr>calls := [GetClient, GetRepo (opt_repository opts),
               GetBranch (opt_base_branch opts)]\<rparr>)))"
proof (cases rule: handle_cases [where gh = gh and fs = fs and opts = opts])
  case idle
  have "CreateGitRef ref sha \<in> set (calls (snd (handle gh fs opts start)))"
    by (simp only: assms) simp
  with idle(1) have False by fastforce
  then show ?thesis ..
next
  case (dry fm)
  let ?st3 = "start\<lparr>calls := [GetClient, GetRepo (opt_repository opts),
               GetBranch (opt_base_branch opts)]\<rparr>"
  have "calls (snd (handle gh fs opts start)) =
      [GetClient, GetRepo (opt_repository opts), GetBranch (opt_base_branch opts), Close]"
    using show_dry_run_frame [of fs "opt_repository opts" "opt_title opts" "opt_body opts"
        "opt_base_branch opts" "opt_head_branch opts" fm "parse_list (opt_labels opts)"
        "parse_list (opt_assignees opts)" "parse_list (opt_reviewers opts)" "opt_draft opts" ?st3]
    by (simp add: dry(7) finish_fields handle_except_snd)
  with assms have "pre @ CreateGitRef ref sha # post =
      [GetClient, GetRepo (opt_repository opts), GetBranch (opt_base_branch opts), Close]"
    by simp
  then have "CreateGitRef ref sha \<in> set [GetClient, GetRepo (opt_repository opts),
               GetBranch (opt_base_branch opts), Close]"
    by (metis in_set_conv_decomp)
  then have False by simp
  then show ?thesis ..
next
  case (delivering fm)
  let ?P = "[GetClient, GetRepo (opt_repository opts), GetBranch (opt_base_branch opts)]"
  let ?st3 = "start\<lparr>calls := ?P\<rparr>"
  let ?ls = "parse_list (opt_labels opts)"
  let ?as = "parse_list (opt_assignees opts)"
  let ?rs = "parse_list (opt_reviewers opts)"
  let ?del = "deliver gh fs opts fm ?ls ?as ?rs ?st3"
  let ?r = "CreateGitRef (''refs/heads/'' @ opt_head_branch opts)"
  have c3: "calls ?st3 = ?P" by (simp add: start_def)
  have fin: "calls (snd (handle gh fs opts start)) = calls (snd ?del) @ [Close]"
    by (simp add: delivering(7) finish_fields handle_except_snd)
  have P_ok: "\<forall>c\<in>set ?P. \<not> is_CreateGitRef c" by simp
  show ?thesis
  proof (cases "fm = []")
    case True
    let ?rest = "case create_pull_request gh (opt_title opts) (opt_body opts)
          (opt_base_branch opts) (opt_head_branch opts) (opt_draft opts) ?st3 of
            (Inl e, st2) \<Rightarrow> (Inl e, st2)
          | (Inr pr, st2) \<Rightarrow> enrich gh pr ?ls ?as ?rs st2"
    from True have del: "?del = ?rest" by (simp add: deliver_def)
    from after_pull_calls [where gh = gh and t = "opt_title opts" and b = "opt_body opts"
        and bb = "opt_base_branch opts" and hb = "opt_head_branch opts" and d = "opt_draft opts"
        and ?st1.0 = ?st3 and labels = ?ls and assignees = ?as and reviewers = ?rs]
    obtain E where E: "calls (snd ?rest) =
        calls ?st3 @ CreatePull (opt_title opts) (opt_body opts) (opt_base_branch opts)
          (opt_head_branch opts) (opt_draft opts) # E" "\<forall>c\<in>set E. enrichment c"
      by blast
    have "\<forall>c\<in>set (calls (snd (handle gh fs opts start))). \<not> is_CreateGitRef c"
      using E(2) enrichment_call by (auto simp: fin del E(1) c3)
    moreover have "CreateGitRef ref sha \<in> set (calls (snd (handle gh fs opts start)))"
      by (simp only: assms) simp
    ultimately have False by fastforce
    then show ?thesis ..
  next
    case False
    from deliver_after_upload [OF False, of gh fs opts ?ls ?as ?rs ?st3] obtain T where
      T: "calls (snd ?del) = calls (snd (upload_files gh fs (opt_head_branch opts) fm ?st3)) @ T"
        "\<forall>c\<in>set T. \<not> is_CreateGitRef c \<and> c \<noteq> Close"
      by blast
    show ?thesis
    proof (cases rule: upload_files_cases [where gh = gh and st = ?st3
          and head = "opt_head_branch opts" and fs = fs and fm = fm])
      case (no_main f)
      have "\<forall>c\<in>set (calls (snd (handle gh fs opts start))). \<not> is_CreateGitRef c"
        using T(2) by (auto simp: fin T(1) no_main(3) c3)
      moreover have "CreateGitRef ref sha \<in> set (calls (snd (handle gh fs opts start)))"
        by (simp only: assms) simp
      ultimately have False by fastforce
      then show ?thesis ..
    next
      case (ref_failed sha' f)
      have eq: "pre @ CreateGitRef ref sha # post =
          (?P @ [GetBranch ''main'']) @ ?r sha' # (T @ [Close])"
        using assms by (simp add: fin T(1) ref_failed(5) c3)
      have "\<forall>x\<in>set (T @ [Close]). \<not> is_CreateGitRef x" using T(2) by auto
      with unique_split [OF eq, of is_CreateGitRef]
      have u: "pre = ?P @ [GetBranch ''main'']" "CreateGitRef ref sha = ?r sha'" by auto
      show ?thesis
      proof (rule that [of fm])
        show "fm \<noteq> []" by (rule False)
        show "pre = [GetClient, GetRepo (opt_repository opts), GetBranch (opt_base_branch opts),
          GetBranch ''main'']" using u(1) by simp
        show "gh ?P (GetBranch ''main'') = Inr sha" using ref_failed(1) u(2) c3 by simp
        show "ref = ''refs/heads/'' @ opt_head_branch opts" using u(2) by simp
      qed (rule delivering)+
    next
      case (looped sha' ext)
      have eq: "pre @ CreateGitRef ref sha # post =
          (?P @ [GetBranch ''main'']) @ ?r sha' # (ext @ T @ [Close])"
        using assms by (simp add: fin T(1) looped(3) c3)
      have "\<forall>x\<in>set (ext @ T @ [Close]). \<not> is_CreateGitRef x"
        using T(2) looped(4) publishing_no_ref by auto
      with unique_split [OF eq, of is_CreateGitRef]
      have u: "pre = ?P @ [GetBranch ''main'']" "CreateGitRef ref sha = ?r sha'" by auto
      show ?thesis
      proof (rule that [of fm])
        show "fm \<noteq> []" by (rule False)
        show "pre = [GetClient, GetRepo (opt_repository opts), GetBranch (opt_base_branch opts),
          GetBranch ''main'']" using u(1) by simp
        show "gh ?P (GetBranch ''main'') = Inr sha" using looped(1) u(2) c3 by simp
        show "ref = ''refs/heads/'' @ opt_head_branch opts" using u(2) by simp
      qed (rule delivering)+
    qed
  qed
qed

text \<open>
  Claim C2. Whenever a run creates a branch reference, the reference is that of the head
  branch, the call just before it is the lookup of the branch named \<open>main\<close>, and the commit
  the reference is created at is the tip that this lookup returned. The lookup of the
  base branch option comes earlier in the run and its answer is not used: the statement
  holds for every value of the option.
\<close>

theorem branch_created_at_tip_of_main:
  assumes "calls (snd (handle gh fs opts start)) = pre @ CreateGitRef ref sha # post"
  shows "ref = ''refs/heads/'' @ opt_head_branch opts \<and>
    pre = [GetClient, GetRepo (opt_repository opts), GetBranch (opt_base_branch opts),
      GetBranch ''main''] \<and>
    gh [GetClient, GetRepo (opt_repository opts), GetBranch (opt_base_branch opts)]
      (GetBranch ''main'') = Inr sha"
proof -
  from assms obtain fm where
    "pre = [GetClient, GetRepo (opt_repository opts), GetBranch (opt_base_branch opts),
       GetBranch ''main'']"
    "gh [GetClient, GetRepo (opt_repository opts), GetBranch (opt_base_branch opts)]
       (GetBranch ''main'') = Inr sha"
    "ref = ''refs/heads/'' @ opt_head_branch opts"
    by (rule reaches_ref [where gh = gh and fs = fs and opts = opts])
  then show ?thesis by simp
qed

theorem branch_created_at_tip_of_main_witness:
  "calls (snd (handle
      (\<lambda>h c. case c of
         GetBranch name \<Rightarrow> if name = ''main'' then Inr ''abc123'' else Inr ''def456''
       | GetContents path ref \<Rightarrow> Inl (GithubException ''404 Not Found'')
       | _ \<Rightarrow> Inr ''ok'')
      \<lparr>stat = (\<lambda>p. Regular 11), resolve = id, read_text = (\<lambda>p. Decoded ''Hello World'')\<rparr>
      \<lparr>opt_repository = ''OWASP/Nest'', opt_title = ''Test PR'', opt_body = ''Test description'',
       opt_base_branch = ''develop'', opt_head_branch = ''feature/test'',
       opt_files = Some ''f1.txt:test.txt'', opt_labels = None, opt_assignees = None,
       opt_reviewers = None, opt_draft = False, opt_dry_run = False\<rparr> start)) =
     [GetClient, GetRepo ''OWASP/Nest'', GetBranch ''develop'', GetBranch ''main''] @
     CreateGitRef ''refs/heads/feature/test'' ''abc123'' #
     [GetContents ''test.txt'' ''feature/test'',
      CreateFile ''test.txt'' ''Create test.txt'' ''Hello World'' ''feature/test'',
      CreatePull ''Test PR'' ''Test description'' ''develop'' ''feature/test'' False,
      Close] \<and>
   (\<lambda>h c. case c of
         GetBranch name \<Rightarrow> if name = ''main'' then Inr ''abc123'' else Inr ''def456''
       | GetContents path ref \<Rightarrow> Inl (GithubException ''404 Not Found'')
       | _ \<Rightarrow> Inr ''ok'')
     [GetClient, GetRepo ''OWASP/Nest'', GetBranch ''develop''] (GetBranch ''main'') =
     (Inr ''abc123'' :: fault + string)"
proof -
  let ?gh = "(\<lambda>h c. case c of
         GetBranch name \<Rightarrow> if name = ''main'' then Inr ''abc123'' else Inr ''def456''
       | GetContents path ref \<Rightarrow> Inl (GithubException ''404 Not Found'')
       | _ \<Rightarrow> Inr ''ok'') :: remote"
  let ?fs = "\<lparr>stat = (\<lambda>p. Regular 11), resolve = id,
    read_text = (\<lambda>p. Decoded ''Hello World'')\<rparr>"
  let ?opts = "\<lparr>opt_repository = ''OWASP/Nest'', opt_title = ''Test PR'',
       opt_body = ''Test description'',
       opt_base_branch = ''develop'', opt_head_branch = ''feature/test'',
       opt_files = Some ''f1.txt:test.txt'', opt_labels = None, opt_assignees = None,
       opt_reviewers = None, opt_draft = False, opt_dry_run = False\<rparr>"
  have p: "parse_files (Some ''f1.txt:test.txt'') st = (Inr [(''f1.txt'', ''test.txt'')], st)"
    for st
    by (simp add: parse_files_def strip_def is_space_def split_once_def split_on_Cons_case
        del: split_on.simps(2))
  have run: "calls (snd (handle ?gh ?fs ?opts start)) =
     [GetClient, GetRepo ''OWASP/Nest'', GetBranch ''develop'', GetBranch ''main''] @
     CreateGitRef ''refs/heads/feature/test'' ''abc123'' #
     [GetContents ''test.txt'' ''feature/test'',
      CreateFile ''test.txt'' ''Create test.txt'' ''Hello World'' ''feature/test'',
      CreatePull ''Test PR'' ''Test description'' ''develop'' ''feature/test'' False,
      Close]"
    by (simp add: handle_def handle_body_def deliver_def upload_files_def upload_one_def
        put_file_def validate_file_path_def read_file_content_def max_size_def
        create_pull_request_def enrich_def handle_except_def handle_finally_def request_def
        start_def p parse_list_def Let_def)
  from branch_created_at_tip_of_main [OF run] run show ?thesis by simp
qed

subsection \<open>Remote sides that agree from some point of the run on\<close>

lemma request_agree:
  assumes "\<forall>h c. n \<le> length h \<longrightarrow> gh' h c = gh h c" and "n \<le> length (calls st)"
  shows "request gh' c st = request gh c st"
  using assms by (simp add: request_def)

lemma put_file_agree:
  assumes "\<forall>h c. n \<le> length h \<longrightarrow> gh' h c = gh h c" and "n \<le> length (calls st)"
  shows "put_file gh' head remote_path content st = put_file gh head remote_path content st"
proof -
  have a: "gh' (calls st) c = gh (calls st) c" for c using assms by simp
  have b: "gh' (calls st @ [x]) c = gh (calls st @ [x]) c" for x c using assms by simp
  have c: "gh' (calls st @ [x, y]) c = gh (calls st @ [x, y]) c" for x y c using assms by simp
  show ?thesis
    by (simp add: put_file_def request_def a b c split: sum.splits)
qed

lemma upload_one_agree:
  assumes "\<forall>h c. n \<le> length h \<longrightarrow> gh' h c = gh h c" and "n \<le> length (calls st)"
  shows "upload_one gh' fs head l r st = upload_one gh fs head l r st"
proof -
  obtain res st1 where v: "validate_file_path fs l st = (res, st1)"
    by (cases "validate_file_path fs l st")
  then have c1: "calls st1 = calls st" by (rule validate_file_path_callsD)
  obtain res2 st2 where rd: "read_file_content fs l st1 = (res2, st2)"
    by (cases "read_file_content fs l st1")
  then have c2: "calls st2 = calls st" using c1 by (simp add: read_file_content_callsD)
  have "put_file gh' head r content st2 = put_file gh head r content st2" for content
    using assms c2 by (intro put_file_agree [where n = n]) simp_all
  then show ?thesis
    by (simp add: upload_one_def v rd split: sum.splits)
qed

lemma upload_loop_agree:
  assumes "\<forall>h c. n \<le> length h \<longrightarrow> gh' h c = gh h c"
  shows "n \<le> length (calls st) \<Longrightarrow> upload_loop gh' fs head fm st = upload_loop gh fs head fm st"
proof (induction fm arbitrary: st)
  case Nil
  then show ?case by simp
next
  case (Cons kv fm)
  obtain l r where kv: "kv = (l, r)" by (cases kv)
  have one: "upload_one gh' fs head l r st = upload_one gh fs head l r st"
    using assms Cons.prems by (rule upload_one_agree)
  obtain res st1 where o: "upload_one gh fs head l r st = (res, st1)"
    by (cases "upload_one gh fs head l r st")
  with upload_one_calls [of gh fs head l r st] have "n \<le> length (calls st1)"
    using Cons.prems by auto
  then have "upload_loop gh' fs head fm st1 = upload_loop gh fs head fm st1"
    by (rule Cons.IH)
  then show ?case by (simp add: kv one o split: sum.splits)
qed

lemma create_pull_request_agree:
  assumes "\<forall>h c. n \<le> length h \<longrightarrow> gh' h c = gh h c" and "n \<le> length (calls st)"
  shows "create_pull_request gh' t b bb hb d st = create_pull_request gh t b bb hb d st"
  using assms by (simp add: create_pull_request_def request_def)

lemma add_labels_agree:
  assumes "\<forall>h c. n \<le> length h \<longrightarrow> gh' h c = gh h c" and "n \<le> length (calls st)"
  shows "add_labels gh' labels st = add_labels gh labels st"
  using assms by (simp add: add_labels_def request_def)

lemma add_assignees_agree:
  assumes "\<forall>h c. n \<le> length h \<longrightarrow> gh' h c = gh h c" and "n \<le> length (calls st)"
  shows "add_assignees gh' assignees st = add_assignees gh assignees st"
  using assms by (simp add: add_assignees_def request_def)

lemma add_reviewers_agree:
  assumes "\<forall>h c. n \<le> length h \<longrightarrow> gh' h c = gh h c" and "n \<le> length (calls st)"
  shows "add_reviewers gh' reviewers st = add_reviewers gh reviewers st"
  using assms by (simp add: add_reviewers_def request_def)

lemma enrich_agree:
  assumes agree: "\<forall>h c. n \<le> length h \<longrightarrow> gh' h c = gh h c" and n: "n \<le> length (calls st)"
  shows "enrich gh' pr labels assignees reviewers st = enrich gh pr labels assignees reviewers st"
proof -
  have s1: "(if labels \<noteq> [] then add_labels gh' labels st else (Inr (), st)) =
      (if labels \<noteq> [] then add_labels gh labels st else (Inr (), st))"
    using add_labels_agree [OF agree n] by simp
  obtain r1 st1 where o1:
    "(if labels \<noteq> [] then add_labels gh labels st else (Inr (), st)) = (r1, st1)"
    by (cases "if labels \<noteq> [] then add_labels gh labels st else (Inr (), st)")
  then have n1: "n \<le> length (calls st1)"
    using n add_labels_calls [of gh labels st] by (auto split: if_splits)
  have s2: "(if assignees \<noteq> [] then add_assignees gh' assignees st1 else (Inr (), st1)) =
      (if assignees \<noteq> [] then add_assignees gh assignees st1 else (Inr (), st1))"
    using add_assignees_agree [OF agree n1] by simp
  obtain r2 st2 where o2:
    "(if assignees \<noteq> [] then add_assignees gh assignees st1 else (Inr (), st1)) = (r2, st2)"
    by (cases "if assignees \<noteq> [] then add_assignees gh assignees st1 else (Inr (), st1)")
  then have n2: "n \<le> length (calls st2)"
    using n1 add_assignees_calls [of gh assignees st1] by (auto split: if_splits)
  have s3: "(if reviewers \<noteq> [] then add_reviewers gh' reviewers st2 else (Inr (), st2)) =
      (if reviewers \<noteq> [] then add_reviewers gh reviewers st2 else (Inr (), st2))"
    using add_reviewers_agree [OF agree n2] by simp
  show ?thesis
    by (cases r1; cases r2; simp only: enrich_def s1 o1 s2 o2 s3 prod.case sum.case)
qed

lemma after_pull_agree:
  assumes agree: "\<forall>h c. n \<le> length h \<longrightarrow> gh' h c = gh h c" and n: "n \<le> length (calls st)"
  shows "(case create_pull_request gh' t b bb hb d st of
            (Inl e, st2) \<Rightarrow> (Inl e, st2)
          | (Inr pr, st2) \<Rightarrow> enrich gh' pr labels assignees reviewers st2) =
         (case create_pull_request gh t b bb hb d st of
            (Inl e, st2) \<Rightarrow> (Inl e, st2)
          | (Inr pr, st2) \<Rightarrow> enrich gh pr labels assignees reviewers st2)"
proof -
  obtain r2 st2 where o: "create_pull_request gh t b bb hb d st = (r2, st2)"
    by (cases "create_pull_request gh t b bb hb d st")
  with create_pull_request_calls [of gh t b bb hb d st] n have "n \<le> length (calls st2)"
    by simp
  then have "enrich gh' pr labels assignees reviewers st2 =
      enrich gh pr labels assignees reviewers st2" for pr
    by (rule enrich_agree [OF agree])
  then show ?thesis
    by (simp add: create_pull_request_agree [OF agree n] o split: sum.splits)
qed

lemma handle_finally_agree:
  assumes "\<forall>h c. n \<le> length h \<longrightarrow> gh' h c = gh h c" and "n \<le> length (calls (snd out))"
  shows "handle_finally gh' out = handle_finally gh out"
  using assms by (simp add: handle_finally_def request_def)

text \<open>
  Claim C5. When the call that creates the branch reference raises, there are two cases.
  A GitHub fault whose text holds \<^verbatim>\<open>Reference already exists\<close> is treated as success: the
  whole run, its result, its calls and its output, is the run against the remote side
  that differs only in answering this one call normally. Every other fault ends the
  run: the only call that follows is the release of the client and the exit status is 1.
\<close>

theorem existing_reference_is_success:
  assumes "calls (snd (handle gh fs opts start)) = pre @ CreateGitRef ref sha # post"
    and "gh pre (CreateGitRef ref sha) = Inl f"
  shows "(is_github f \<and> sublist ''Reference already exists'' (str f) \<longrightarrow>
      handle gh fs opts start =
        handle (gh(pre := (gh pre)(CreateGitRef ref sha := Inr sha))) fs opts start) \<and>
    (\<not> (is_github f \<and> sublist ''Reference already exists'' (str f)) \<longrightarrow>
      exit_status (fst (handle gh fs opts start)) = 1 \<and> post = [Close])"
proof -
  let ?P = "[GetClient, GetRepo (opt_repository opts), GetBranch (opt_base_branch opts)]"
  let ?st3 = "start\<lparr>calls := ?P\<rparr>"
  let ?ls = "parse_list (opt_labels opts)"
  let ?as = "parse_list (opt_assignees opts)"
  let ?rs = "parse_list (opt_reviewers opts)"
  let ?head = "opt_head_branch opts"
  let ?c = "CreateGitRef (''refs/heads/'' @ ?head) sha"
  let ?st2 = "start\<lparr>calls := ?P @ [GetBranch ''main'', ?c]\<rparr>"
  from assms(1) obtain fm where
    fm: "fm \<noteq> []" and nodry: "\<not> opt_dry_run opts"
    and slash: "CHR ''/'' \<in> set (opt_repository opts)"
    and client: "\<exists>x. gh [] GetClient = Inr x"
    and repo: "\<exists>x. gh [GetClient] (GetRepo (opt_repository opts)) = Inr x"
    and branch: "\<exists>x. gh [GetClient, GetRepo (opt_repository opts)]
        (GetBranch (opt_base_branch opts)) = Inr x"
    and parse: "parse_files (opt_files opts) start = (Inr fm, start)"
    and pre: "pre = ?P @ [GetBranch ''main'']"
    and main: "gh ?P (GetBranch ''main'') = Inr sha"
    and ref: "ref = ''refs/heads/'' @ ?head"
    and h: "handle gh fs opts start =
       handle_finally gh (handle_except (deliver gh fs opts fm ?ls ?as ?rs ?st3))"
    by (rule reaches_ref [where gh = gh and fs = fs and opts = opts]) simp
  have c3: "calls ?st3 = ?P" by (simp add: start_def)
  have ans: "gh (?P @ [GetBranch ''main'']) ?c = Inl f"
    using assms(2) pre ref by simp
  have st3_main: "request gh (GetBranch ''main'') ?st3 =
      (Inr sha, start\<lparr>calls := ?P @ [GetBranch ''main'']\<rparr>)"
    using main by (simp add: request_def start_def)
  show ?thesis
  proof (intro conjI impI)
    assume other: "\<not> (is_github f \<and> sublist ''Reference already exists'' (str f))"
    have up: "fst (upload_files gh fs ?head fm ?st3) = Inl (Raised f)"
      "calls (snd (upload_files gh fs ?head fm ?st3)) = ?P @ [GetBranch ''main'', ?c]"
      using main ans other by (auto simp: upload_files_def request_def start_def)
    obtain r1 st1 where u: "upload_files gh fs ?head fm ?st3 = (r1, st1)"
      by (cases "upload_files gh fs ?head fm ?st3")
    with up have r1: "r1 = Inl (Raised f)" and c1: "calls st1 = ?P @ [GetBranch ''main'', ?c]"
      by simp_all
    have del: "deliver gh fs opts fm ?ls ?as ?rs ?st3 = (Inl (Raised f), st1)"
      using fm u r1 by (simp add: deliver_def)
    have "exit_status (fst (handle_except (Inl (Raised f), st1))) = 1"
      by (simp add: handle_except_result)
    then show "exit_status (fst (handle gh fs opts start)) = 1"
      unfolding h del by (rule finish_exit)
    have "calls (snd (handle gh fs opts start)) = ?P @ [GetBranch ''main'', ?c, Close]"
      by (simp add: h del finish_fields c1)
    with assms(1) pre ref show "post = [Close]" by simp
  next
    assume exists: "is_github f \<and> sublist ''Reference already exists'' (str f)"
    define gh' where "gh' = gh(pre := (gh pre)(CreateGitRef ref sha := Inr sha))"
    have len: "length pre = 4" by (simp add: pre)
    have same: "gh' hh c = gh hh c" if "hh \<noteq> pre" for hh c
      using that by (simp add: gh'_def)
    have agree: "\<forall>hh c. 5 \<le> length hh \<longrightarrow> gh' hh c = gh hh c"
      using len by (auto simp: gh'_def)
    have ans': "gh' (?P @ [GetBranch ''main'']) ?c = Inr sha"
      by (simp add: gh'_def pre ref)
    have main': "gh' ?P (GetBranch ''main'') = Inr sha"
      using main same [of ?P] by (simp add: pre)
    have client': "\<exists>x. gh' [] GetClient = Inr x"
      using client same [of "[]"] by (simp add: pre)
    have repo': "\<exists>x. gh' [GetClient] (GetRepo (opt_repository opts)) = Inr x"
      using repo same [of "[GetClient]"] by (simp add: pre)
    have branch': "\<exists>x. gh' [GetClient, GetRepo (opt_repository opts)]
        (GetBranch (opt_base_branch opts)) = Inr x"
      using branch same [of "[GetClient, GetRepo (opt_repository opts)]"] by (simp add: pre)
    from client' repo' branch' obtain x y z where
      "gh' [] GetClient = Inr x" "gh' [GetClient] (GetRepo (opt_repository opts)) = Inr y"
      "gh' [GetClient, GetRepo (opt_repository opts)] (GetBranch (opt_base_branch opts)) = Inr z"
      by blast
    from handle_valid [OF slash this parse, of fs] nodry
    have h': "handle gh' fs opts start =
       handle_finally gh' (handle_except (deliver gh' fs opts fm ?ls ?as ?rs ?st3))"
      by simp
    have n2: "5 \<le> length (calls ?st2)" by (simp add: start_def)
    have loop: "upload_loop gh' fs ?head fm ?st2 = upload_loop gh fs ?head fm ?st2"
      using agree n2 by (rule upload_loop_agree)
    have up_gh: "upload_files gh fs ?head fm ?st3 =
        (case upload_loop gh fs ?head fm ?st2 of
           (r, st1) \<Rightarrow>
             (case r of
                Inl (Raised f) \<Rightarrow>
                  if is_github f
                  then (r, write_err (ERROR (''Failed to upload files: '' @ str f)) st1)
                  else (r, st1)
              | _ \<Rightarrow> (r, st1)))"
      using main ans exists by (simp add: upload_files_def request_def start_def)
    have up_gh': "upload_files gh' fs ?head fm ?st3 =
        (case upload_loop gh' fs ?head fm ?st2 of
           (r, st1) \<Rightarrow>
             (case r of
                Inl (Raised f) \<Rightarrow>
                  if is_github f
                  then (r, write_err (ERROR (''Failed to upload files: '' @ str f)) st1)
                  else (r, st1)
              | _ \<Rightarrow> (r, st1)))"
      using main' ans' by (simp add: upload_files_def request_def start_def)
    have up_eq: "upload_files gh' fs ?head fm ?st3 = upload_files gh fs ?head fm ?st3"
      by (simp only: up_gh up_gh' loop)
    obtain r1 st1 where u: "upload_files gh fs ?head fm ?st3 = (r1, st1)"
      by (cases "upload_files gh fs ?head fm ?st3")
    have n1: "5 \<le> length (calls st1)"
    proof (cases rule: upload_files_cases [where gh = gh and st = ?st3
          and head = ?head and fs = fs and fm = fm])
      case (no_main f')
      with main c3 show ?thesis by simp
    next
      case (ref_failed sha' f')
      from ref_failed(1) main c3 have "sha' = sha" by simp
      with ref_failed(2) ans c3 have "f' = f" by simp
      with ref_failed(3) exists show ?thesis by simp
    next
      case (looped sha' ext)
      with u show ?thesis by (simp add: c3)
    qed
    have rest: "(case create_pull_request gh' (opt_title opts) (opt_body opts)
          (opt_base_branch opts) ?head (opt_draft opts) st1 of
            (Inl e, st2) \<Rightarrow> (Inl e, st2)
          | (Inr pr, st2) \<Rightarrow> enrich gh' pr ?ls ?as ?rs st2) =
        (case create_pull_request gh (opt_title opts) (opt_body opts)
          (opt_base_branch opts) ?head (opt_draft opts) st1 of
            (Inl e, st2) \<Rightarrow> (Inl e, st2)
          | (Inr pr, st2) \<Rightarrow> enrich gh pr ?ls ?as ?rs st2)"
      using agree n1 by (rule after_pull_agree)
    have del_eq: "deliver gh' fs opts fm ?ls ?as ?rs ?st3 = deliver gh fs opts fm ?ls ?as ?rs ?st3"
      using fm rest by (cases r1) (simp_all add: deliver_def up_eq u)
    from deliver_after_upload [OF fm, of gh fs opts ?ls ?as ?rs ?st3] u n1
    have "5 \<le> length (calls (snd (deliver gh fs opts fm ?ls ?as ?rs ?st3)))"
      by auto
    then have "5 \<le> length (calls (snd (handle_except (deliver gh fs opts fm ?ls ?as ?rs ?st3))))"
      by (simp add: handle_except_snd)
    with agree have "handle_finally gh' (handle_except (deliver gh fs opts fm ?ls ?as ?rs ?st3)) =
        handle_finally gh (handle_except (deliver gh fs opts fm ?ls ?as ?rs ?st3))"
      by (rule handle_finally_agree)
    then have "handle gh fs opts start = handle gh' fs opts start"
      by (simp only: h h' del_eq)
    then show "handle gh fs opts start =
        handle (gh(pre := (gh pre)(CreateGitRef ref sha := Inr sha))) fs opts start"
      by (simp only: gh'_def)
  qed
qed

theorem existing_reference_is_success_witness:
  "calls (snd (handle
      (\<lambda>h c. case c of
         CreateGitRef ref sha \<Rightarrow> Inl (GithubException ''422 Reference already exists'')
       | GetContents path ref \<Rightarrow> Inl (GithubException ''404 Not Found'')
       | _ \<Rightarrow> Inr ''abc123'')
      \<lparr>stat = (\<lambda>p. Regular 11), resolve = id, read_text = (\<lambda>p. Decoded ''Hello World'')\<rparr>
      \<lparr>opt_repository = ''OWASP/Nest'', opt_title = ''Test PR'', opt_body = ''Test description'',
       opt_base_branch = ''main'', opt_head_branch = ''feature/test'',
       opt_files = Some ''f1.txt:test.txt'', opt_labels = None, opt_assignees = None,
       opt_reviewers = None, opt_draft = False, opt_dry_run = False\<rparr> start)) =
     [GetClient, GetRepo ''OWASP/Nest'', GetBranch ''main'', GetBranch ''main''] @
     CreateGitRef ''refs/heads/feature/test'' ''abc123'' #
     [GetContents ''test.txt'' ''feature/test'',
      CreateFile ''test.txt'' ''Create test.txt'' ''Hello World'' ''feature/test'',
      CreatePull ''Test PR'' ''Test description'' ''main'' ''feature/test'' False,
      Close] \<and>
   handle
      (\<lambda>h c. case c of
         CreateGitRef ref sha \<Rightarrow> Inl (GithubException ''422 Reference already exists'')
       | GetContents path ref \<Rightarrow> Inl (GithubException ''404 Not Found'')
       | _ \<Rightarrow> Inr ''abc123'')
      \<lparr>stat = (\<lambda>p. Regular 11), resolve = id, read_text = (\<lambda>p. Decoded ''Hello World'')\<rparr>
      \<lparr>opt_repository = ''OWASP/Nest'', opt_title = ''Test PR'', opt_body = ''Test description'',
       opt_base_branch = ''main'', opt_head_branch = ''feature/test'',
       opt_files = Some ''f1.txt:test.txt'', opt_labels = None, opt_assignees = None,
       opt_reviewers = None, opt_draft = False, opt_dry_run = False\<rparr> start =
   handle
      ((\<lambda>h c. case c of
         CreateGitRef ref sha \<Rightarrow> Inl (GithubException ''422 Reference already exists'')
       | GetContents path ref \<Rightarrow> Inl (GithubException ''404 Not Found'')
       | _ \<Rightarrow> Inr ''abc123'')
       ([GetClient, GetRepo ''OWASP/Nest'', GetBranch ''main'', GetBranch ''main''] :=
          ((\<lambda>h c. case c of
             CreateGitRef ref sha \<Rightarrow> Inl (GithubException ''422 Reference already exists'')
           | GetContents path ref \<Rightarrow> Inl (GithubException ''404 Not Found'')
           | _ \<Rightarrow> Inr ''abc123'')
           [GetClient, GetRepo ''OWASP/Nest'', GetBranch ''main'', GetBranch ''main''])
          (CreateGitRef ''refs/heads/feature/test'' ''abc123'' := Inr ''abc123'')))
      \<lparr>stat = (\<lambda>p. Regular 11), resolve = id, read_text = (\<lambda>p. Decoded ''Hello World'')\<rparr>
      \<lparr>opt_repository = ''OWASP/Nest'', opt_title = ''Test PR'', opt_body = ''Test description'',
       opt_base_branch = ''main'', opt_head_branch = ''feature/test'',
       opt_files = Some ''f1.txt:test.txt'', opt_labels = None, opt_assignees = None,
       opt_reviewers = None, opt_draft = False, opt_dry_run = False\<rparr> start \<and>
   calls (snd (handle
      (\<lambda>h c. case c of
         CreateGitRef ref sha \<Rightarrow> Inl (GithubException ''403 Forbidden'')
       | GetContents path ref \<Rightarrow> Inl (GithubException ''404 Not Found'')
       | _ \<Rightarrow> Inr ''abc123'')
      \<lparr>stat = (\<lambda>p. Regular 11), resolve = id, read_text = (\<lambda>p. Decoded ''Hello World'')\<rparr>
      \<lparr>opt_repository = ''OWASP/Nest'', opt_title = ''Test PR'', opt_body = ''Test description'',
       opt_base_branch = ''main'', opt_head_branch = ''feature/test'',
       opt_files = Some ''f1.txt:test.txt'', opt_labels = None, opt_assignees = None,
       opt_reviewers = None, opt_draft = False, opt_dry_run = False\<rparr> start)) =
     [GetClient, GetRepo ''OWASP/Nest'', GetBranch ''main'', GetBranch ''main''] @
     CreateGitRef ''refs/heads/feature/test'' ''abc123'' # [Close] \<and>
   exit_status (fst (handle
      (\<lambda>h c. case c of
         CreateGitRef ref sha \<Rightarrow> Inl (GithubException ''403 Forbidden'')
       | GetContents path ref \<Rightarrow> Inl (GithubException ''404 Not Found'')
       | _ \<Rightarrow> Inr ''abc123'')
      \<lparr>stat = (\<lambda>p. Regular 11), resolve = id, read_text = (\<lambda>p. Decoded ''Hello World'')\<rparr>
      \<lparr>opt_repository = ''OWASP/Nest'', opt_title = ''Test PR'', opt_body = ''Test description'',
       opt_base_branch = ''main'', opt_head_branch = ''feature/test'',
       opt_files = Some ''f1.txt:test.txt'', opt_labels = None, opt_assignees = None,
       opt_reviewers = None, opt_draft = False, opt_dry_run = False\<rparr> start)) = 1"
proof -
  let ?gh = "(\<lambda>h c. case c of
         CreateGitRef ref sha \<Rightarrow> Inl (GithubException ''422 Reference already exists'')
       | GetContents path ref \<Rightarrow> Inl (GithubException ''404 Not Found'')
       | _ \<Rightarrow> Inr ''abc123'') :: remote"
  let ?gh2 = "(\<lambda>h c. case c of
         CreateGitRef ref sha \<Rightarrow> Inl (GithubException ''403 Forbidden'')
       | GetContents path ref \<Rightarrow> Inl (GithubException ''404 Not Found'')
       | _ \<Rightarrow> Inr ''abc123'') :: remote"
  let ?fs = "\<lparr>stat = (\<lambda>p. Regular 11), resolve = id,
    read_text = (\<lambda>p. Decoded ''Hello World'')\<rparr>"
  let ?opts = "\<lparr>opt_repository = ''OWASP/Nest'', opt_title = ''Test PR'',
       opt_body = ''Test description'',
       opt_base_branch = ''main'', opt_head_branch = ''feature/test'',
       opt_files = Some ''f1.txt:test.txt'', opt_labels = None, opt_assignees = None,
       opt_reviewers = None, opt_draft = False, opt_dry_run = False\<rparr>"
  let ?pre = "[GetClient, GetRepo ''OWASP/Nest'', GetBranch ''main'', GetBranch ''main'']"
  let ?c = "CreateGitRef ''refs/heads/feature/test'' ''abc123''"
  have p: "parse_files (Some ''f1.txt:test.txt'') st = (Inr [(''f1.txt'', ''test.txt'')], st)"
    for st
    by (simp add: parse_files_def strip_def is_space_def split_once_def split_on_Cons_case
        del: split_on.simps(2))
  have "sublist ''Reference already exists'' (''422 '' @ ''Reference already exists'' @ [])"
    by (rule sublist_appendI)
  then have sub: "sublist ''Reference already exists'' ''422 Reference already exists''"
    by simp
  have nosub: "\<not> sublist ''Reference already exists'' ''403 Forbidden''"
    by (simp add: sublist_Cons_right)
  have run: "calls (snd (handle ?gh ?fs ?opts start)) = ?pre @ ?c #
     [GetContents ''test.txt'' ''feature/test'',
      CreateFile ''test.txt'' ''Create test.txt'' ''Hello World'' ''feature/test'',
      CreatePull ''Test PR'' ''Test description'' ''main'' ''feature/test'' False,
      Close]"
    by (simp add: handle_def handle_body_def deliver_def upload_files_def upload_one_def
        put_file_def validate_file_path_def read_file_content_def max_size_def
        create_pull_request_def enrich_def handle_except_def handle_finally_def request_def
        start_def p parse_list_def Let_def sub)
  have ans: "?gh ?pre ?c = Inl (GithubException ''422 Reference already exists'')"
    by simp
  have yes: "is_github (GithubException ''422 Reference already exists'') \<and>
      sublist ''Reference already exists'' (str (GithubException ''422 Reference already exists''))"
    using sub by simp
  from existing_reference_is_success [OF run ans]
  have "is_github (GithubException ''422 Reference already exists'') \<and>
      sublist ''Reference already exists''
        (str (GithubException ''422 Reference already exists'')) \<longrightarrow>
      handle ?gh ?fs ?opts start =
        handle (?gh(?pre := (?gh ?pre)(?c := Inr ''abc123''))) ?fs ?opts start"
    by (rule conjunct1)
  from this yes have same: "handle ?gh ?fs ?opts start =
        handle (?gh(?pre := (?gh ?pre)(?c := Inr ''abc123''))) ?fs ?opts start"
    by (rule mp)
  have run2: "calls (snd (handle ?gh2 ?fs ?opts start)) = ?pre @ ?c # [Close]"
    by (simp add: handle_def handle_body_def deliver_def upload_files_def
        handle_except_def handle_finally_def request_def
        start_def p parse_list_def Let_def nosub)
  have ans2: "?gh2 ?pre ?c = Inl (GithubException ''403 Forbidden'')"
    by simp
  have no: "\<not> (is_github (GithubException ''403 Forbidden'') \<and>
      sublist ''Reference already exists'' (str (GithubException ''403 Forbidden'')))"
    using nosub by simp
  from existing_reference_is_success [OF run2 ans2]
  have "\<not> (is_github (GithubException ''403 Forbidden'') \<and>
      sublist ''Reference already exists'' (str (GithubException ''403 Forbidden''))) \<longrightarrow>
      exit_status (fst (handle ?gh2 ?fs ?opts start)) = 1 \<and> [Close] = [Close]"
    by (rule conjunct2)
  from this no have "exit_status (fst (handle ?gh2 ?fs ?opts start)) = 1 \<and> [Close] = [Close]"
    by (rule mp)
  then have exit2: "exit_status (fst (handle ?gh2 ?fs ?opts start)) = 1" by (rule conjunct1)
  show ?thesis
    by (intro conjI) (rule run, rule same, rule run2, rule exit2)
qed

end
